theory Spec2Isabelle
  imports Complex_Main
begin

section \<open>Data model\<close>

text \<open>
  The embedding follows \<^verbatim>\<open>core/traffic_logic.py\<close> and \<^verbatim>\<open>core/detector.py\<close>.
  Python integers are \<open>int\<close>; a Python \<open>dict\<close> is an association list with distinct
  keys in insertion order (the order \<^verbatim>\<open>items()\<close> iterates in).
\<close>

datatype SignalState = RED | GREEN | YELLOW

datatype SignalMode = NORMAL | EMERGENCY

text \<open>Assignment \<^verbatim>\<open>d[k] = v\<close>: an existing key keeps its place, a new key goes last.\<close>

fun dict_set :: "('k \<times> 'v) list \<Rightarrow> 'k \<Rightarrow> 'v \<Rightarrow> ('k \<times> 'v) list" where
  "dict_set [] k v = [(k, v)]"
| "dict_set ((k', v') # d) k v =
     (if k' = k then (k, v) # d else (k', v') # dict_set d k v)"

type_synonym counts = "(string \<times> int) list"

text \<open>\<^verbatim>\<open>sum(counts.values())\<close>\<close>

definition sum_values :: "counts \<Rightarrow> int" where
  "sum_values c = sum_list (map snd c)"

subsection \<open>The detection system (\<^verbatim>\<open>detector.py\<close>)\<close>

text \<open>
  What a \<^verbatim>\<open>LaneVideoProcessor\<close> publishes under its lock. The annotated frame is an image
  and plays no part in scheduling; it is left out. The processor at position \<open>i\<close> of
  \<^verbatim>\<open>MultiLaneDetectionSystem.processors\<close> has \<^verbatim>\<open>lane_id\<close> \<open>i + 1\<close>
  (\<^verbatim>\<open>enumerate(video_paths, 1)\<close>).
\<close>

record processor =
  latest_counts :: counts
  is_ambulance :: bool

text \<open>A freshly constructed processor, before its first detection.\<close>

definition new_processor :: processor where
  "new_processor =
     \<lparr>latest_counts = [(''car'', 0), (''bus'', 0), (''truck'', 0), (''motorcycle'', 0)],
      is_ambulance = False\<rparr>"

text \<open>\<^verbatim>\<open>LaneVideoProcessor.get_data\<close>, without the frame.\<close>

definition get_data :: "processor \<Rightarrow> counts \<times> bool" where
  "get_data p = (latest_counts p, is_ambulance p)"

text \<open>
  \<^verbatim>\<open>MultiLaneDetectionSystem.__init__\<close> keeps one processor for each of the first four
  video paths (\<^verbatim>\<open>if i > 4: break\<close>).
\<close>

definition make_processors :: "'a list \<Rightarrow> 'a list" where
  "make_processors video_paths = take 4 video_paths"

definition get_lane_data :: "processor list \<Rightarrow> int \<Rightarrow> counts \<times> bool" where
  "get_lane_data processors lane_id =
     (if 1 \<le> lane_id \<and> lane_id \<le> int (length processors)
      then get_data (processors ! nat (lane_id - 1))
      else ([], False))"

record lane_info =
  counts :: counts
  ambulance :: bool
  total' :: int

text \<open>
  \<^verbatim>\<open>get_all_lane_data\<close> fills a dict keyed by \<^verbatim>\<open>p.lane_id\<close>, walking the processors
  in order; the loop is a left fold over the processors paired with their lane ids.
\<close>

definition lane_entry :: "processor \<Rightarrow> lane_info" where
  "lane_entry p =
     (case get_data p of (c, a) \<Rightarrow> \<lparr>counts = c, ambulance = a, total' = sum_values c\<rparr>)"

definition with_lane_ids :: "processor list \<Rightarrow> (int \<times> processor) list" where
  "with_lane_ids processors = zip [1 .. int (length processors)] processors"

definition get_all_lane_data :: "processor list \<Rightarrow> (int \<times> lane_info) list" where
  "get_all_lane_data processors =
     foldl (\<lambda>data (lane_id, p). dict_set data lane_id (lane_entry p)) []
       (with_lane_ids processors)"

subsection \<open>Collaborators of the controller\<close>

text \<open>
  The controller receives its detection system as a constructor argument and only calls
  \<^verbatim>\<open>get_lane_data\<close> and \<^verbatim>\<open>get_all_lane_data\<close> on it. Lane monitors run in their own
  threads, so what these calls return depends on when they are made: the interface is
  indexed by the time of the call, in seconds since the controller was created. A call
  may raise; \<open>Inl\<close> is the exception.
\<close>

datatype exn = Exception

record detection_system =
  lane_data_at :: "nat \<Rightarrow> int \<Rightarrow> exn + counts \<times> bool"
  all_lane_data_at :: "nat \<Rightarrow> exn + (int \<times> lane_info) list"

text \<open>
  The detection system of this repository: \<open>feed t\<close> is what the processors hold at time
  \<open>t\<close>. Its two methods never raise.
\<close>

definition multi_lane :: "(nat \<Rightarrow> processor list) \<Rightarrow> detection_system" where
  "multi_lane feed =
     \<lparr>lane_data_at = (\<lambda>t lane_id. Inr (get_lane_data (make_processors (feed t)) lane_id)),
      all_lane_data_at = (\<lambda>t. Inr (get_all_lane_data (make_processors (feed t))))\<rparr>"

text \<open>
  Calls that other threads make on the controller while the scheduler thread sleeps:
  the dashboard's emergency buttons and its stop button.
\<close>

datatype ext_call = ForceEmergency int | Stop

record world =
  detection :: detection_system
  calls :: "nat \<Rightarrow> ext_call list"

text \<open>The arguments of one \<^verbatim>\<open>db.log_traffic_cycle\<close> call.\<close>

record log_call =
  lane_id :: int
  vehicle_counts :: counts
  ambulance_detected :: bool
  green_duration :: int
  signal_mode :: SignalMode

subsection \<open>The controller\<close>

text \<open>
  The fields of \<^verbatim>\<open>TrafficSignalController\<close>, followed by three fields of bookkeeping
  that the source does not have: \<open>clock\<close>, the seconds the scheduler thread has slept so
  far; \<open>signal_log\<close>, every value the signal table has taken together with the time it was
  written (oldest first); and \<open>db_calls\<close>, the calls made to the database manager (a
  failing call is caught and printed at the call site and changes nothing else).
\<close>

record controller =
  lane_states :: "(int \<times> SignalState) list"
  current_lane :: int
  mode :: SignalMode
  yellow_duration :: nat
  transition_delay :: nat
  running :: bool
  force_emergency_lane :: "int option"
  cycle_count :: int
  emergency_count :: int
  total_wait_time_saved :: int
  clock :: nat
  signal_log :: "(nat \<times> (int \<times> SignalState) list) list"
  db_calls :: "log_call list"

text \<open>\<^verbatim>\<open>__init__\<close>\<close>

definition init :: controller where
  "init =
     \<lparr>lane_states = [(1, RED), (2, RED), (3, RED), (4, RED)],
      current_lane = 1,
      mode = NORMAL,
      yellow_duration = 3,
      transition_delay = 2,
      running = False,
      force_emergency_lane = None,
      cycle_count = 0,
      emergency_count = 0,
      total_wait_time_saved = 0,
      clock = 0,
      signal_log = [(0, [(1, RED), (2, RED), (3, RED), (4, RED)])],
      db_calls = []\<rparr>"

definition calculate_green_duration :: "int \<Rightarrow> int" where
  "calculate_green_duration vehicle_count =
     (if vehicle_count > 15 then 60
      else if vehicle_count \<ge> 5 then 30
      else 15)"

definition get_lane_state :: "int \<Rightarrow> controller \<Rightarrow> SignalState" where
  "get_lane_state l s = (case map_of (lane_states s) l of None \<Rightarrow> RED | Some v \<Rightarrow> v)"

definition get_all_states :: "controller \<Rightarrow> (int \<times> SignalState) list" where
  "get_all_states s = lane_states s"

definition force_emergency :: "int \<Rightarrow> controller \<Rightarrow> controller" where
  "force_emergency l s = s\<lparr>force_emergency_lane := Some l\<rparr>"

definition stop :: "controller \<Rightarrow> controller" where
  "stop s = s\<lparr>running := False\<rparr>"

text \<open>\<^verbatim>\<open>self.lane_states[l] = v\<close> under the lock; the new table is recorded.\<close>

definition set_lane :: "int \<Rightarrow> SignalState \<Rightarrow> controller \<Rightarrow> controller" where
  "set_lane l v s =
     s\<lparr>lane_states := dict_set (lane_states s) l v,
       signal_log := signal_log s @ [(clock s, dict_set (lane_states s) l v)]\<rparr>"

fun apply_call :: "ext_call \<Rightarrow> controller \<Rightarrow> controller" where
  "apply_call (ForceEmergency l) s = force_emergency l s"
| "apply_call Stop s = stop s"

text \<open>
  \<^verbatim>\<open>time.sleep(d)\<close>: the scheduler thread does nothing for \<open>d\<close> seconds. Second by
  second the clock advances and the calls that other threads make in that second take
  effect, in order. The sleep reads nothing: it has no way to end early.
\<close>

fun sleep :: "world \<Rightarrow> nat \<Rightarrow> controller \<Rightarrow> controller" where
  "sleep w 0 s = s"
| "sleep w (Suc d) s =
     sleep w d (fold apply_call (calls w (Suc (clock s))) (s\<lparr>clock := Suc (clock s)\<rparr>))"

definition transition_to_lane :: "world \<Rightarrow> int \<Rightarrow> int \<Rightarrow> controller \<Rightarrow> controller" where
  "transition_to_lane w from_lane to_lane s =
     (let s1 = set_lane from_lane YELLOW s;
          s2 = sleep w (yellow_duration s1) s1;
          s3 = set_lane from_lane RED s2;
          s4 = sleep w (transition_delay s3) s3;
          s5 = set_lane to_lane GREEN s4
      in s5\<lparr>current_lane := to_lane\<rparr>)"

definition log_traffic_cycle :: "log_call \<Rightarrow> controller \<Rightarrow> controller" where
  "log_traffic_cycle c s = s\<lparr>db_calls := db_calls s @ [c]\<rparr>"

text \<open>
  A method of the controller either returns a value or raises; in both cases it leaves
  the controller in the state it had reached.
\<close>

datatype 'a outcome = Return 'a controller | Raised exn controller

definition handle_normal_cycle :: "world \<Rightarrow> controller \<Rightarrow> unit outcome" where
  "handle_normal_cycle w s =
     (let lane = current_lane s in
      case lane_data_at (detection w) (clock s) lane of
        Inl e \<Rightarrow> Raised e s
      | Inr (cs, amb) \<Rightarrow>
          (let total_vehicles = sum_values cs;
               s1 = (if amb
                     then s\<lparr>mode := EMERGENCY, emergency_count := emergency_count s + 1\<rparr>
                     else s);
               green = calculate_green_duration total_vehicles;
               fixed_time = 60;
               wait_time_saved = max 0 (fixed_time - green);
               s2 = s1\<lparr>total_wait_time_saved := total_wait_time_saved s1 + wait_time_saved\<rparr>;
               s3 = log_traffic_cycle
                      \<lparr>lane_id = lane, vehicle_counts = cs, ambulance_detected = amb,
                       green_duration = green, signal_mode = mode s2\<rparr> s2;
               s4 = sleep w (nat green) s3;
               next_lane = (lane mod 4) + 1;
               s5 = transition_to_lane w lane next_lane s4
           in Return () (s5\<lparr>mode := NORMAL, cycle_count := cycle_count s5 + 1\<rparr>)))"

definition handle_emergency_override :: "world \<Rightarrow> int \<Rightarrow> controller \<Rightarrow> unit outcome" where
  "handle_emergency_override w emergency_lane s =
     (let current = current_lane s in
      if current = emergency_lane then Return () s
      else
        (let s1 = s\<lparr>emergency_count := emergency_count s + 1\<rparr>;
             s2 = transition_to_lane w current emergency_lane s1;
             emergency_duration = 45
         in case lane_data_at (detection w) (clock s2) emergency_lane of
              Inl e \<Rightarrow> Raised e s2
            | Inr (cs, _) \<Rightarrow>
                (let s3 = log_traffic_cycle
                            \<lparr>lane_id = emergency_lane, vehicle_counts = cs,
                             ambulance_detected = True,
                             green_duration = emergency_duration,
                             signal_mode = EMERGENCY\<rparr> s2;
                     s4 = sleep w (nat emergency_duration) s3
                 in Return () (s4\<lparr>cycle_count := cycle_count s4 + 1\<rparr>))))"

text \<open>
  Python's truth test on an optional lane id, as in \<^verbatim>\<open>if self.force_emergency_lane:\<close>
  and \<^verbatim>\<open>if emergency_lane:\<close>: \<^verbatim>\<open>None\<close> and \<open>0\<close> are false.
\<close>

fun truthy :: "int option \<Rightarrow> bool" where
  "truthy None = False"
| "truthy (Some l) = (l \<noteq> 0)"

text \<open>The \<^verbatim>\<open>for\<close> loop of \<^verbatim>\<open>check_emergency_conditions\<close>.\<close>

fun first_ambulance :: "(int \<times> lane_info) list \<Rightarrow> int option" where
  "first_ambulance [] = None"
| "first_ambulance ((l, d) # rest) = (if ambulance d then Some l else first_ambulance rest)"

definition check_emergency_conditions :: "world \<Rightarrow> controller \<Rightarrow> int option outcome" where
  "check_emergency_conditions w s =
     (if truthy (force_emergency_lane s)
      then Return (force_emergency_lane s) (s\<lparr>force_emergency_lane := None\<rparr>)
      else
        (case all_lane_data_at (detection w) (clock s) of
           Inl e \<Rightarrow> Raised e s
         | Inr all_data \<Rightarrow> Return (first_ambulance all_data) s))"

text \<open>The body of the \<^verbatim>\<open>try\<close> block in \<^verbatim>\<open>run\<close>.\<close>

definition cycle :: "world \<Rightarrow> controller \<Rightarrow> unit outcome" where
  "cycle w s =
     (case check_emergency_conditions w s of
        Raised e s1 \<Rightarrow> Raised e s1
      | Return emergency_lane s1 \<Rightarrow>
          (if truthy emergency_lane
           then handle_emergency_override w (the emergency_lane) (s1\<lparr>mode := EMERGENCY\<rparr>)
           else handle_normal_cycle w (s1\<lparr>mode := NORMAL\<rparr>)))"

text \<open>One pass through the \<^verbatim>\<open>while\<close> loop: the cycle, and the handler of \<^verbatim>\<open>except Exception\<close>.\<close>

definition iteration :: "world \<Rightarrow> controller \<Rightarrow> controller" where
  "iteration w s =
     (case cycle w s of
        Return _ s' \<Rightarrow> s'
      | Raised e s' \<Rightarrow> sleep w 5 s')"

text \<open>What \<^verbatim>\<open>run\<close> does before it enters the loop.\<close>

definition run_init :: "controller \<Rightarrow> controller" where
  "run_init s = (set_lane 1 GREEN (s\<lparr>running := True\<rparr>))\<lparr>current_lane := 1\<rparr>"

text \<open>
  The \<^verbatim>\<open>while self.running\<close> loop with a bound on the number of passes: \<open>Some s\<close> when the
  loop is left in state \<open>s\<close> within \<open>n\<close> passes, \<open>None\<close> when it is still going.
\<close>

fun run_loop :: "world \<Rightarrow> nat \<Rightarrow> controller \<Rightarrow> controller option" where
  "run_loop w n s =
     (if \<not> running s then Some s
      else (case n of 0 \<Rightarrow> None | Suc m \<Rightarrow> run_loop w m (iteration w s)))"

definition run :: "world \<Rightarrow> nat \<Rightarrow> controller \<Rightarrow> controller option" where
  "run w n s = run_loop w n (run_init s)"

text \<open>The state of the controller after \<open>n\<close> passes of the loop, or at its exit if that comes first.\<close>

fun passes :: "world \<Rightarrow> nat \<Rightarrow> controller \<Rightarrow> controller" where
  "passes w 0 s = s"
| "passes w (Suc n) s = (if running s then passes w n (iteration w s) else s)"

text \<open>
  Python's true division \<^verbatim>\<open>a / b\<close> of two integers gives a float: the double nearest to
  the quotient, ties going to the even significand, with gradual underflow. It raises
  \<^verbatim>\<open>ZeroDivisionError\<close> when \<open>b\<close> is 0 and \<^verbatim>\<open>OverflowError\<close> when the rounded quotient is
  beyond the doubles. A float is modelled by the rational number it stands for.
\<close>

text \<open>\<^verbatim>\<open>int.bit_length\<close>\<close>

fun bit_length :: "nat \<Rightarrow> nat" where
  "bit_length n = (if n = 0 then 0 else Suc (bit_length (n div 2)))"

declare bit_length.simps [simp del]

definition pow2 :: "int \<Rightarrow> rat" where
  "pow2 k = (if k \<ge> 0 then 2 ^ nat k else 1 / 2 ^ nat (- k))"

text \<open>The exponent \<open>e\<close> with \<open>2\<^sup>e \<le> a / b < 2\<^sup>e\<^sup>+\<^sup>1\<close>, for positive \<open>a\<close> and \<open>b\<close>.\<close>

definition binade :: "nat \<Rightarrow> nat \<Rightarrow> int" where
  "binade a b =
     (let d = int (bit_length a) - int (bit_length b)
      in if pow2 d \<le> of_nat a / of_nat b then d else d - 1)"

definition round_half_even :: "rat \<Rightarrow> int" where
  "round_half_even x =
     (let f = \<lfloor>x\<rfloor>; r = x - of_int f
      in if r < 1 / 2 then f else if r > 1 / 2 then f + 1 else if even f then f else f + 1)"

datatype arith_error = ZeroDivisionError | OverflowError

text \<open>
  A double has a significand of 53 bits, so the last place of a quotient in binade \<open>e\<close>
  is worth \<open>2\<^sup>e\<^sup>-\<^sup>5\<^sup>2\<close>, and never less than \<open>2\<^sup>-\<^sup>1\<^sup>0\<^sup>7\<^sup>4\<close>; doubles end below \<open>2\<^sup>1\<^sup>0\<^sup>2\<^sup>4\<close>.
\<close>

definition py_truediv :: "int \<Rightarrow> int \<Rightarrow> arith_error + rat" where
  "py_truediv a b =
     (if b = 0 then Inl ZeroDivisionError
      else if a = 0 then Inr 0
      else
        (let n = nat \<bar>a\<bar>; d = nat \<bar>b\<bar>;
             k = max (binade n d - 52) (- 1074);
             r = of_int (round_half_even (of_nat n / of_nat d / pow2 k)) * pow2 k
         in if r \<ge> pow2 1024 then Inl OverflowError
            else Inr (if (a < 0) = (b < 0) then r else - r)))"

record statistics =
  total_cycles :: int
  emergency_events :: int
  wait_time_saved :: int
  stat_current_lane :: int
  stat_mode :: SignalMode
  avg_wait_saved_per_cycle :: rat

text \<open>
  \<^verbatim>\<open>get_statistics\<close>. The average is the float \<^verbatim>\<open>total_wait_time_saved / cycle_count\<close>, or
  the integer 0 when no cycle has been counted; an error of the division leaves the
  method as an exception.
\<close>

definition get_statistics :: "controller \<Rightarrow> arith_error + statistics" where
  "get_statistics s =
     (case (if cycle_count s > 0
            then py_truediv (total_wait_time_saved s) (cycle_count s)
            else Inr 0) of
        Inl e \<Rightarrow> Inl e
      | Inr avg \<Rightarrow>
          Inr \<lparr>total_cycles = cycle_count s,
               emergency_events = emergency_count s,
               wait_time_saved = total_wait_time_saved s,
               stat_current_lane = current_lane s,
               stat_mode = mode s,
               avg_wait_saved_per_cycle = avg\<rparr>)"

subsection \<open>Observations on the signal table\<close>

definition non_red_lanes :: "(int \<times> SignalState) list \<Rightarrow> int list" where
  "non_red_lanes tab = map fst (filter (\<lambda>(l, v). v \<noteq> RED) tab)"

definition at_most_one_non_red :: "(int \<times> SignalState) list \<Rightarrow> bool" where
  "at_most_one_non_red tab = (length (non_red_lanes tab) \<le> 1)"

subsection \<open>Auxiliary notions\<close>

text \<open>The state a call leaves behind, whether it returned or raised.\<close>

fun state_of :: "'a outcome \<Rightarrow> controller" where
  "state_of (Return _ s) = s"
| "state_of (Raised _ s) = s"

text \<open>
  The invariant of the signal table: lane ids are distinct keys, only the active lane
  may be away from RED, and every table recorded so far had at most one lane away from RED.
\<close>

definition lanes_inv :: "controller \<Rightarrow> bool" where
  "lanes_inv s =
     (distinct (map fst (lane_states s))
      \<and> (\<forall>(l, v) \<in> set (lane_states s). v \<noteq> RED \<longrightarrow> l = current_lane s)
      \<and> list_all at_most_one_non_red (map snd (signal_log s)))"

text \<open>\<open>n\<close> calls of \<^verbatim>\<open>handle_normal_cycle\<close> in a row, stopping at the first that raises.\<close>

fun normal_cycles :: "world \<Rightarrow> nat \<Rightarrow> controller \<Rightarrow> unit outcome" where
  "normal_cycles w 0 s = Return () s"
| "normal_cycles w (Suc n) s =
     (case handle_normal_cycle w s of
        Raised e s' \<Rightarrow> Raised e s'
      | Return _ s' \<Rightarrow> normal_cycles w n s')"


subsection \<open>Sample worlds\<close>

text \<open>A processor that has counted \<open>n\<close> cars, with or without an ambulance in view.\<close>

definition lane_with :: "int \<Rightarrow> bool \<Rightarrow> processor" where
  "lane_with n a =
     \<lparr>latest_counts = [(''car'', n), (''bus'', 0), (''truck'', 0), (''motorcycle'', 0)],
      is_ambulance = a\<rparr>"

text \<open>Four lanes with 20, 10, 3 and 0 vehicles, no ambulance, nobody at the dashboard.\<close>

definition steady_feed :: "nat \<Rightarrow> processor list" where
  "steady_feed t = [lane_with 20 False, lane_with 10 False, lane_with 3 False, lane_with 0 False]"

definition steady_world :: world where
  "steady_world = \<lparr>detection = multi_lane steady_feed, calls = (\<lambda>t. [])\<rparr>"

text \<open>
  Lane 1 is busy; an ambulance comes into view in lane 3 one second after the start and
  stays, and the emergency button of lane 4 is pressed in second 2.
\<close>

definition late_feed :: "nat \<Rightarrow> processor list" where
  "late_feed t = [lane_with 20 False, lane_with 0 False, lane_with 0 (1 \<le> t), lane_with 0 False]"

definition late_world :: world where
  "late_world =
     \<lparr>detection = multi_lane late_feed,
      calls = (\<lambda>t. if t = 2 then [ForceEmergency 4] else [])\<rparr>"

text \<open>Ambulances in lanes 2 and 4 at once.\<close>

definition two_ambulances_feed :: "nat \<Rightarrow> processor list" where
  "two_ambulances_feed t =
     [lane_with 7 False, lane_with 2 True, lane_with 0 False, lane_with 9 True]"

definition two_ambulances_world :: world where
  "two_ambulances_world = \<lparr>detection = multi_lane two_ambulances_feed, calls = (\<lambda>t. [])\<rparr>"

text \<open>Only two video paths were given: lanes 3 and 4 have no processor.\<close>

definition two_lane_feed :: "nat \<Rightarrow> processor list" where
  "two_lane_feed t = [lane_with 20 False, lane_with 10 False]"

definition two_lane_world :: world where
  "two_lane_world = \<lparr>detection = multi_lane two_lane_feed, calls = (\<lambda>t. [])\<rparr>"

text \<open>A detection system whose every call raises.\<close>

definition faulty_world :: world where
  "faulty_world =
     \<lparr>detection =
        \<lparr>lane_data_at = (\<lambda>t l. Inl Exception), all_lane_data_at = (\<lambda>t. Inl Exception)\<rparr>,
      calls = (\<lambda>t. [])\<rparr>"

section \<open>Auxiliary facts\<close>

subsection \<open>Sleeping and the fields it leaves alone\<close>

lemma fold_apply_call_frame:
  "\<exists>r f. fold apply_call cs s = s\<lparr>running := r, force_emergency_lane := f\<rparr>"
proof (induction cs arbitrary: s)
  case Nil
  have "s = s\<lparr>running := running s, force_emergency_lane := force_emergency_lane s\<rparr>" by simp
  then show ?case by (metis fold_simps(1))
next
  case (Cons c cs)
  obtain r f where "fold apply_call cs (apply_call c s) = (apply_call c s)\<lparr>running := r, force_emergency_lane := f\<rparr>"
    using Cons.IH by blast
  then show ?case
    by (cases c) (auto simp: force_emergency_def stop_def intro: exI)
qed

lemma sleep_frame:
  "\<exists>r f. sleep w d s = s\<lparr>clock := clock s + d, running := r, force_emergency_lane := f\<rparr>"
proof (induction d arbitrary: s)
  case 0
  have "s = s\<lparr>clock := clock s + 0, running := running s, force_emergency_lane := force_emergency_lane s\<rparr>" by simp
  then show ?case by (metis sleep.simps(1))
next
  case (Suc d)
  let ?s1 = "s\<lparr>clock := Suc (clock s)\<rparr>"
  obtain r f where a: "fold apply_call (calls w (Suc (clock s))) ?s1 = ?s1\<lparr>running := r, force_emergency_lane := f\<rparr>"
    using fold_apply_call_frame by blast
  obtain r' f' where b: "sleep w d (?s1\<lparr>running := r, force_emergency_lane := f\<rparr>)
     = (?s1\<lparr>running := r, force_emergency_lane := f\<rparr>)\<lparr>clock := clock (?s1\<lparr>running := r, force_emergency_lane := f\<rparr>) + d, running := r', force_emergency_lane := f'\<rparr>"
    using Suc.IH by blast
  show ?case
    by (simp add: a b) (auto intro: exI)
qed

lemma sleep_fields:
  "lane_states (sleep w d s) = lane_states s"
  "current_lane (sleep w d s) = current_lane s"
  "mode (sleep w d s) = mode s"
  "yellow_duration (sleep w d s) = yellow_duration s"
  "transition_delay (sleep w d s) = transition_delay s"
  "cycle_count (sleep w d s) = cycle_count s"
  "emergency_count (sleep w d s) = emergency_count s"
  "total_wait_time_saved (sleep w d s) = total_wait_time_saved s"
  "signal_log (sleep w d s) = signal_log s"
  "db_calls (sleep w d s) = db_calls s"
  "clock (sleep w d s) = clock s + d"
  using sleep_frame [of w d s] by auto

subsection \<open>Transitions and cycles\<close>

lemma set_lane_fields:
  "lane_states (set_lane l v s) = dict_set (lane_states s) l v"
  "signal_log (set_lane l v s) = signal_log s @ [(clock s, dict_set (lane_states s) l v)]"
  "current_lane (set_lane l v s) = current_lane s"
  "mode (set_lane l v s) = mode s"
  "yellow_duration (set_lane l v s) = yellow_duration s"
  "transition_delay (set_lane l v s) = transition_delay s"
  "running (set_lane l v s) = running s"
  "force_emergency_lane (set_lane l v s) = force_emergency_lane s"
  "cycle_count (set_lane l v s) = cycle_count s"
  "emergency_count (set_lane l v s) = emergency_count s"
  "total_wait_time_saved (set_lane l v s) = total_wait_time_saved s"
  "db_calls (set_lane l v s) = db_calls s"
  "clock (set_lane l v s) = clock s"
  by (simp_all add: set_lane_def)

lemma transition_to_lane_fields:
  "lane_states (transition_to_lane w a b s) =
     dict_set (dict_set (dict_set (lane_states s) a YELLOW) a RED) b GREEN"
  "signal_log (transition_to_lane w a b s) =
     signal_log s @
       [(clock s, dict_set (lane_states s) a YELLOW),
        (clock s + yellow_duration s, dict_set (dict_set (lane_states s) a YELLOW) a RED),
        (clock s + yellow_duration s + transition_delay s,
         dict_set (dict_set (dict_set (lane_states s) a YELLOW) a RED) b GREEN)]"
  "current_lane (transition_to_lane w a b s) = b"
  "mode (transition_to_lane w a b s) = mode s"
  "yellow_duration (transition_to_lane w a b s) = yellow_duration s"
  "transition_delay (transition_to_lane w a b s) = transition_delay s"
  "cycle_count (transition_to_lane w a b s) = cycle_count s"
  "emergency_count (transition_to_lane w a b s) = emergency_count s"
  "total_wait_time_saved (transition_to_lane w a b s) = total_wait_time_saved s"
  "db_calls (transition_to_lane w a b s) = db_calls s"
  "clock (transition_to_lane w a b s) = clock s + yellow_duration s + transition_delay s"
  by (simp_all add: transition_to_lane_def Let_def set_lane_fields sleep_fields)

lemma green_duration_pos: "0 < calculate_green_duration v"
  by (simp add: calculate_green_duration_def)

lemma normal_cycle_effect:
  assumes "lane_data_at (detection w) (clock s) (current_lane s) = Inr (cs, amb)"
  defines "g \<equiv> nat (calculate_green_duration (sum_values cs))"
  defines "t \<equiv> clock s + g"
  defines "tab1 \<equiv> dict_set (lane_states s) (current_lane s) YELLOW"
  defines "tab2 \<equiv> dict_set tab1 (current_lane s) RED"
  defines "tab3 \<equiv> dict_set tab2 (current_lane s mod 4 + 1) GREEN"
  shows "\<exists>s'. handle_normal_cycle w s = Return () s'
    \<and> lane_states s' = tab3
    \<and> signal_log s' = signal_log s @
         [(t, tab1), (t + yellow_duration s, tab2),
          (t + yellow_duration s + transition_delay s, tab3)]
    \<and> clock s' = t + yellow_duration s + transition_delay s
    \<and> current_lane s' = current_lane s mod 4 + 1
    \<and> mode s' = NORMAL
    \<and> cycle_count s' = cycle_count s + 1
    \<and> emergency_count s' = emergency_count s + (if amb then 1 else 0)
    \<and> total_wait_time_saved s' =
          total_wait_time_saved s + max 0 (60 - calculate_green_duration (sum_values cs))
    \<and> db_calls s' = db_calls s @
          [\<lparr>lane_id = current_lane s, vehicle_counts = cs, ambulance_detected = amb,
            green_duration = calculate_green_duration (sum_values cs),
            signal_mode = (if amb then EMERGENCY else mode s)\<rparr>]
    \<and> yellow_duration s' = yellow_duration s
    \<and> transition_delay s' = transition_delay s"
  using assms(1) unfolding g_def t_def tab1_def tab2_def tab3_def
  by (simp add: handle_normal_cycle_def Let_def log_traffic_cycle_def
       transition_to_lane_fields sleep_fields)

lemma emergency_override_effect:
  assumes "current_lane s \<noteq> e"
    and "lane_data_at (detection w) (clock s + yellow_duration s + transition_delay s) e = Inr (cs, a)"
  defines "tab1 \<equiv> dict_set (lane_states s) (current_lane s) YELLOW"
  defines "tab2 \<equiv> dict_set tab1 (current_lane s) RED"
  defines "tab3 \<equiv> dict_set tab2 e GREEN"
  shows "\<exists>s'. handle_emergency_override w e s = Return () s'
    \<and> lane_states s' = tab3
    \<and> signal_log s' = signal_log s @
         [(clock s, tab1), (clock s + yellow_duration s, tab2),
          (clock s + yellow_duration s + transition_delay s, tab3)]
    \<and> clock s' = clock s + yellow_duration s + transition_delay s + 45
    \<and> current_lane s' = e
    \<and> mode s' = mode s
    \<and> cycle_count s' = cycle_count s + 1
    \<and> emergency_count s' = emergency_count s + 1
    \<and> total_wait_time_saved s' = total_wait_time_saved s
    \<and> db_calls s' = db_calls s @
          [\<lparr>lane_id = e, vehicle_counts = cs, ambulance_detected = True,
            green_duration = 45, signal_mode = EMERGENCY\<rparr>]"
  using assms(1,2) unfolding tab1_def tab2_def tab3_def
  by (simp add: handle_emergency_override_def Let_def log_traffic_cycle_def
       transition_to_lane_fields sleep_fields)

lemma map_of_dict_set: "map_of (dict_set d k v) = (map_of d)(k \<mapsto> v)"
  by (induction d) auto

lemma dict_set_fresh: "k \<notin> fst ` set d \<Longrightarrow> dict_set d k v = d @ [(k, v)]"
  by (induction d) auto

lemma dict_set_keys: "fst ` set (dict_set d k v) = insert k (fst ` set d)"
proof (induction d)
  case Nil
  then show ?case by simp
next
  case (Cons a d)
  obtain k' v' where a: "a = (k', v')" by (cases a)
  show ?case
  proof (cases "k' = k")
    case True
    then show ?thesis by (simp add: a)
  next
    case False
    then show ?thesis using Cons.IH by (simp add: a insert_commute)
  qed
qed

lemma distinct_dict_set: "distinct (map fst d) \<Longrightarrow> distinct (map fst (dict_set d k v))"
proof (induction d)
  case Nil
  then show ?case by simp
next
  case (Cons a d)
  obtain k' v' where a: "a = (k', v')" by (cases a)
  show ?case
  proof (cases "k' = k")
    case True
    with Cons.prems a show ?thesis by simp
  next
    case False
    have "k' \<notin> fst ` set (dict_set d k v)"
      using Cons.prems a False by (simp add: dict_set_keys)
    with Cons a False show ?thesis by simp
  qed
qed

lemma dict_set_mem:
  "distinct (map fst d) \<Longrightarrow> (l, u) \<in> set (dict_set d k v) \<Longrightarrow>
   (l = k \<and> u = v) \<or> ((l, u) \<in> set d \<and> l \<noteq> k)"
proof (induction d)
  case Nil
  then show ?case by simp
next
  case (Cons a d)
  obtain k' v' where a: "a = (k', v')" by (cases a)
  show ?case
  proof (cases "k' = k")
    case True
    have "l \<noteq> k" if "(l, u) \<in> set d"
      using that Cons.prems(1) a True by (auto simp: image_iff)
    then show ?thesis using Cons.prems(2) a True by auto
  next
    case False
    then show ?thesis using Cons a by auto
  qed
qed

lemma fold_dict_set_fresh:
  "distinct (map fst xs) \<Longrightarrow> fst ` set xs \<inter> fst ` set acc = {} \<Longrightarrow>
   foldl (\<lambda>data (k, p). dict_set data k (f p)) acc xs = acc @ map (\<lambda>(k, p). (k, f p)) xs"
proof (induction xs arbitrary: acc)
  case Nil
  then show ?case by simp
next
  case (Cons x xs)
  obtain k p where x: "x = (k, p)" by (cases x)
  have fresh: "k \<notin> fst ` set acc" using Cons.prems(2) x by auto
  have d: "distinct (map fst xs)" using Cons.prems(1) by simp
  have "fst ` set xs \<inter> fst ` set (acc @ [(k, f p)]) = {}"
    using Cons.prems x by auto
  from Cons.IH [OF d this] show ?case
    by (simp add: x dict_set_fresh [OF fresh])
qed

lemma with_lane_ids_keys: "map fst (with_lane_ids ps) = [1 .. int (length ps)]"
  by (simp add: with_lane_ids_def)

lemma get_all_lane_data_eq:
  "get_all_lane_data ps = map (\<lambda>(l, p). (l, lane_entry p)) (with_lane_ids ps)"
proof -
  have "distinct (map fst (with_lane_ids ps))"
    by (simp add: with_lane_ids_keys)
  then show ?thesis
    unfolding get_all_lane_data_def
    using fold_dict_set_fresh [of "with_lane_ids ps" "[]" lane_entry] by simp
qed

lemma lane_entry_ambulance: "ambulance (lane_entry p) = is_ambulance p"
  by (simp add: lane_entry_def get_data_def)

lemma first_ambulance_from:
  "first_ambulance (map (\<lambda>(l, p). (l, lane_entry p)) (zip [k .. k + int (length ps) - 1] ps)) =
     (if \<exists>i < length ps. is_ambulance (ps ! i)
      then Some (k + int (LEAST i. i < length ps \<and> is_ambulance (ps ! i)))
      else None)"
proof (induction ps arbitrary: k)
  case Nil
  then show ?case by simp
next
  case (Cons p ps)
  have up: "[k .. k + int (length (p # ps)) - 1] = k # [k + 1 .. (k + 1) + int (length ps) - 1]"
    by (simp add: upto_rec1 [of k])
  show ?case
  proof (cases "is_ambulance p")
    case True
    then have "(LEAST i. i < length (p # ps) \<and> is_ambulance ((p # ps) ! i)) = 0"
      by (intro Least_equality) auto
    moreover have "\<exists>i < length (p # ps). is_ambulance ((p # ps) ! i)"
      using True by (intro exI [of _ 0]) simp
    ultimately show ?thesis
      using True by (simp only: up) (simp add: lane_entry_ambulance)
  next
    case False
    show ?thesis
    proof (cases "\<exists>i < length ps. is_ambulance (ps ! i)")
      case ex: True
      let ?P = "\<lambda>i. i < length ps \<and> is_ambulance (ps ! i)"
      let ?Q = "\<lambda>i. i < length (p # ps) \<and> is_ambulance ((p # ps) ! i)"
      have P: "?P (Least ?P)" using ex by (metis (mono_tags, lifting) LeastI)
      have "Least ?Q = Suc (Least ?P)"
      proof (rule Least_equality)
        show "?Q (Suc (Least ?P))" using P by simp
      next
        fix y assume y: "?Q y"
        then obtain y' where y': "y = Suc y'" using False by (cases y) auto
        with y have "?P y'" by simp
        then have "Least ?P \<le> y'" by (rule Least_le)
        with y' show "Suc (Least ?P) \<le> y" by simp
      qed
      moreover have "\<exists>i < length (p # ps). is_ambulance ((p # ps) ! i)"
        using ex by (metis P Suc_less_eq length_Cons nth_Cons_Suc)
      ultimately show ?thesis
        using False ex Cons.IH [of "k + 1"]
        by (simp only: up) (simp add: lane_entry_ambulance)
    next
      case nex: False
      have "\<not> (\<exists>i < length (p # ps). is_ambulance ((p # ps) ! i))"
      proof
        assume "\<exists>i < length (p # ps). is_ambulance ((p # ps) ! i)"
        then obtain i where i: "i < length (p # ps)" "is_ambulance ((p # ps) ! i)" by blast
        show False using i False nex by (cases i) auto
      qed
      then show ?thesis
        using False nex Cons.IH [of "k + 1"]
        by (simp only: up) (simp add: lane_entry_ambulance)
    qed
  qed
qed

lemma first_ambulance_all:
  "first_ambulance (get_all_lane_data ps) =
     (if \<exists>i < length ps. is_ambulance (ps ! i)
      then Some (1 + int (LEAST i. i < length ps \<and> is_ambulance (ps ! i)))
      else None)"
  using first_ambulance_from [of 1 ps]
  by (simp add: get_all_lane_data_eq with_lane_ids_def)

subsection \<open>The signal table invariant\<close>

lemma all_red_no_non_red: "\<forall>(l, v) \<in> set tab. v = RED \<Longrightarrow> non_red_lanes tab = []"
  by (induction tab) (auto simp: non_red_lanes_def)

lemma one_non_red:
  "distinct (map fst tab) \<Longrightarrow> \<forall>(l, v) \<in> set tab. v \<noteq> RED \<longrightarrow> l = c \<Longrightarrow>
   at_most_one_non_red tab"
proof (induction tab)
  case Nil
  then show ?case by (simp add: at_most_one_non_red_def non_red_lanes_def)
next
  case (Cons a tab)
  obtain k v where a: "a = (k, v)" by (cases a)
  have d: "distinct (map fst tab)" and k: "k \<notin> fst ` set tab"
    using Cons.prems(1) a by auto
  have rest: "\<forall>(l, v) \<in> set tab. v \<noteq> RED \<longrightarrow> l = c"
    using Cons.prems(2) by auto
  show ?case
  proof (cases "v = RED")
    case True
    then show ?thesis
      using Cons.IH [OF d rest] a by (simp add: at_most_one_non_red_def non_red_lanes_def)
  next
    case False
    then have "k = c" using Cons.prems(2) a by auto
    have "\<forall>(l, v) \<in> set tab. v = RED"
    proof (clarify)
      fix l u assume m: "(l, u) \<in> set tab"
      show "u = RED"
      proof (rule ccontr)
        assume "u \<noteq> RED"
        then have "l = c" using rest m by auto
        then show False using k m \<open>k = c\<close> by (force simp: image_iff)
      qed
    qed
    then have "non_red_lanes tab = []" by (rule all_red_no_non_red)
    then show ?thesis
      using a by (simp add: at_most_one_non_red_def non_red_lanes_def)
  qed
qed

lemma transition_tables:
  fixes a b :: int
  assumes d: "distinct (map fst tab)"
    and o: "\<forall>(l, v) \<in> set tab. v \<noteq> RED \<longrightarrow> l = a"
  defines "tab1 \<equiv> dict_set tab a YELLOW"
  defines "tab2 \<equiv> dict_set tab1 a RED"
  defines "tab3 \<equiv> dict_set tab2 b GREEN"
  shows "distinct (map fst tab3)"
    and "\<forall>(l, v) \<in> set tab3. v \<noteq> RED \<longrightarrow> l = b"
    and "at_most_one_non_red tab1"
    and "at_most_one_non_red tab2"
    and "at_most_one_non_red tab3"
proof -
  have d1: "distinct (map fst tab1)" unfolding tab1_def using d by (rule distinct_dict_set)
  have d2: "distinct (map fst tab2)" unfolding tab2_def using d1 by (rule distinct_dict_set)
  show d3: "distinct (map fst tab3)" unfolding tab3_def using d2 by (rule distinct_dict_set)
  have o1: "\<forall>(l, v) \<in> set tab1. v \<noteq> RED \<longrightarrow> l = a"
    unfolding tab1_def using dict_set_mem [OF d] o by fastforce
  have r2: "\<forall>(l, v) \<in> set tab2. v = RED"
  proof (clarify)
    fix l u assume "(l, u) \<in> set tab2"
    then have "(l = a \<and> u = RED) \<or> ((l, u) \<in> set tab1 \<and> l \<noteq> a)"
      unfolding tab2_def by (rule dict_set_mem [OF d1])
    then show "u = RED" using o1 by auto
  qed
  then have o2: "\<forall>(l, v) \<in> set tab2. v \<noteq> RED \<longrightarrow> l = a" by auto
  show o3: "\<forall>(l, v) \<in> set tab3. v \<noteq> RED \<longrightarrow> l = b"
  proof (clarify)
    fix l u assume "(l, u) \<in> set tab3" "u \<noteq> RED"
    moreover from this have "(l = b \<and> u = GREEN) \<or> ((l, u) \<in> set tab2 \<and> l \<noteq> b)"
      unfolding tab3_def using dict_set_mem [OF d2] by blast
    ultimately show "l = b" using r2 by auto
  qed
  show "at_most_one_non_red tab1" using d1 o1 by (rule one_non_red)
  show "at_most_one_non_red tab2" using d2 o2 by (rule one_non_red)
  show "at_most_one_non_red tab3" using d3 o3 by (rule one_non_red)
qed

lemma lanes_inv_transition:
  assumes "lanes_inv s"
  shows "lanes_inv (transition_to_lane w (current_lane s) b s)"
proof -
  have d: "distinct (map fst (lane_states s))"
    and o: "\<forall>(l, v) \<in> set (lane_states s). v \<noteq> RED \<longrightarrow> l = current_lane s"
    and h: "list_all at_most_one_non_red (map snd (signal_log s))"
    using assms by (auto simp: lanes_inv_def)
  show ?thesis
    unfolding lanes_inv_def
    using transition_tables(1,2,5) [OF d o, of b] transition_tables(3,4) [OF d o] h
    by (simp add: transition_to_lane_fields)
qed

lemma lanes_inv_cong:
  "lane_states s' = lane_states s \<Longrightarrow> current_lane s' = current_lane s \<Longrightarrow>
   signal_log s' = signal_log s \<Longrightarrow> lanes_inv s' = lanes_inv s"
  by (simp add: lanes_inv_def)

lemma lanes_inv_sleep: "lanes_inv (sleep w d s) = lanes_inv s"
  by (rule lanes_inv_cong) (simp_all add: sleep_fields)

lemma lanes_inv_normal: "lanes_inv s \<Longrightarrow> lanes_inv (state_of (handle_normal_cycle w s))"
proof -
  assume i: "lanes_inv s"
  show ?thesis
  proof (cases "lane_data_at (detection w) (clock s) (current_lane s)")
    case (Inl e)
    then show ?thesis using i by (simp add: handle_normal_cycle_def)
  next
    case (Inr r)
    obtain cs amb where r: "r = (cs, amb)" by (cases r)
    define s4 where "s4 = sleep w (nat (calculate_green_duration (sum_values cs)))
       (log_traffic_cycle
          \<lparr>lane_id = current_lane s, vehicle_counts = cs, ambulance_detected = amb,
           green_duration = calculate_green_duration (sum_values cs),
           signal_mode = (if amb then EMERGENCY else mode s)\<rparr>
          ((if amb then s\<lparr>mode := EMERGENCY, emergency_count := emergency_count s + 1\<rparr> else s)
             \<lparr>total_wait_time_saved :=
                total_wait_time_saved s + max 0 (60 - calculate_green_duration (sum_values cs))\<rparr>))"
    have c4: "current_lane s4 = current_lane s"
      by (simp add: s4_def sleep_fields log_traffic_cycle_def)
    have "lanes_inv s4 = lanes_inv s"
      by (rule lanes_inv_cong) (simp_all add: s4_def sleep_fields log_traffic_cycle_def)
    then have "lanes_inv (transition_to_lane w (current_lane s4) (current_lane s mod 4 + 1) s4)"
      using i lanes_inv_transition by blast
    moreover have "state_of (handle_normal_cycle w s) =
       (transition_to_lane w (current_lane s) (current_lane s mod 4 + 1) s4)
         \<lparr>mode := NORMAL,
          cycle_count := cycle_count (transition_to_lane w (current_lane s) (current_lane s mod 4 + 1) s4) + 1\<rparr>"
      using Inr r by (simp add: handle_normal_cycle_def Let_def s4_def)
    ultimately show ?thesis
      by (simp add: c4 lanes_inv_def)
  qed
qed

lemma lanes_inv_emergency:
  "lanes_inv s \<Longrightarrow> lanes_inv (state_of (handle_emergency_override w e s))"
proof -
  assume i: "lanes_inv s"
  let ?s1 = "s\<lparr>emergency_count := emergency_count s + 1\<rparr>"
  let ?s2 = "transition_to_lane w (current_lane s) e ?s1"
  have "lanes_inv ?s1" using i by (simp add: lanes_inv_def)
  then have "lanes_inv (transition_to_lane w (current_lane ?s1) e ?s1)"
    by (rule lanes_inv_transition)
  then have i2: "lanes_inv ?s2" by simp
  show ?thesis
  proof (cases "current_lane s = e")
    case True
    then show ?thesis using i by (simp add: handle_emergency_override_def)
  next
    case False
    show ?thesis
    proof (cases "lane_data_at (detection w) (clock ?s2) e")
      case (Inl x)
      then show ?thesis using False i2 by (simp add: handle_emergency_override_def Let_def)
    next
      case (Inr r)
      obtain cs a where r: "r = (cs, a)" by (cases r)
      have "lanes_inv (state_of (handle_emergency_override w e s)) = lanes_inv ?s2"
        using False Inr r
        by (intro lanes_inv_cong)
           (simp_all add: handle_emergency_override_def Let_def sleep_fields log_traffic_cycle_def)
      then show ?thesis using i2 by simp
    qed
  qed
qed

lemma check_state:
  "state_of (check_emergency_conditions w s) = s
   \<or> state_of (check_emergency_conditions w s) = s\<lparr>force_emergency_lane := None\<rparr>"
  by (simp add: check_emergency_conditions_def split: sum.splits)

lemma lanes_inv_check:
  "lanes_inv (state_of (check_emergency_conditions w s)) = lanes_inv s"
  using check_state [of w s] by (auto simp: lanes_inv_def)

lemma lanes_inv_cycle: "lanes_inv s \<Longrightarrow> lanes_inv (state_of (cycle w s))"
proof -
  assume i: "lanes_inv s"
  show ?thesis
  proof (cases "check_emergency_conditions w s")
    case (Return r s1)
    then have "lanes_inv s1" using i lanes_inv_check [of w s] by simp
    then have a: "lanes_inv (s1\<lparr>mode := EMERGENCY\<rparr>)" and b: "lanes_inv (s1\<lparr>mode := NORMAL\<rparr>)"
      by (simp_all add: lanes_inv_def)
    show ?thesis
      using Return lanes_inv_emergency [OF a] lanes_inv_normal [OF b]
      by (simp add: cycle_def)
  next
    case (Raised e s1)
    then have "lanes_inv s1" using i lanes_inv_check [of w s] by simp
    then show ?thesis using Raised by (simp add: cycle_def)
  qed
qed

lemma lanes_inv_iteration: "lanes_inv s \<Longrightarrow> lanes_inv (iteration w s)"
  using lanes_inv_cycle [of s w]
  by (cases "cycle w s") (simp_all add: iteration_def lanes_inv_sleep)

lemma lanes_inv_passes: "lanes_inv s \<Longrightarrow> lanes_inv (passes w n s)"
  by (induction n arbitrary: s) (simp_all add: lanes_inv_iteration)

lemma lanes_inv_start: "lanes_inv (run_init init)"
  by (simp add: lanes_inv_def run_init_def init_def set_lane_def at_most_one_non_red_def
        non_red_lanes_def)

lemma signals_exclusive:
  "list_all at_most_one_non_red (map snd (signal_log (passes w n (run_init init))))
   \<and> at_most_one_non_red (get_all_states (passes w n (run_init init)))"
proof -
  have i: "lanes_inv (passes w n (run_init init))"
    using lanes_inv_start by (rule lanes_inv_passes)
  then have "at_most_one_non_red (lane_states (passes w n (run_init init)))"
    unfolding lanes_inv_def using one_non_red by blast
  with i show ?thesis by (simp add: lanes_inv_def get_all_states_def)
qed

subsection \<open>Stop requests and the override slot\<close>

lemma running_fold:
  "Stop \<notin> set cs \<Longrightarrow> running (fold apply_call cs s) = running s"
proof (induction cs arbitrary: s)
  case Nil
  then show ?case by simp
next
  case (Cons c cs)
  then show ?case by (cases c) (simp_all add: force_emergency_def)
qed

lemma running_sleep:
  "\<forall>t. Stop \<notin> set (calls w t) \<Longrightarrow> running (sleep w d s) = running s"
  by (induction d arbitrary: s) (simp_all add: running_fold)

lemma slot_fold:
  "\<forall>l. ForceEmergency l \<notin> set cs \<Longrightarrow>
   force_emergency_lane (fold apply_call cs s) = force_emergency_lane s"
proof (induction cs arbitrary: s)
  case Nil
  then show ?case by simp
next
  case (Cons c cs)
  then show ?case by (cases c) (auto simp: stop_def)
qed

lemma slot_sleep:
  "\<forall>t l. ForceEmergency l \<notin> set (calls w t) \<Longrightarrow>
   force_emergency_lane (sleep w d s) = force_emergency_lane s"
  by (induction d arbitrary: s) (simp_all add: slot_fold)

lemma running_transition:
  "\<forall>t. Stop \<notin> set (calls w t) \<Longrightarrow> running (transition_to_lane w a b s) = running s"
  by (simp add: transition_to_lane_def Let_def running_sleep set_lane_fields)

lemma slot_transition:
  "\<forall>t l. ForceEmergency l \<notin> set (calls w t) \<Longrightarrow>
   force_emergency_lane (transition_to_lane w a b s) = force_emergency_lane s"
  by (simp add: transition_to_lane_def Let_def slot_sleep set_lane_fields)

lemma running_normal:
  "\<forall>t. Stop \<notin> set (calls w t) \<Longrightarrow> running (state_of (handle_normal_cycle w s)) = running s"
  by (simp add: handle_normal_cycle_def Let_def running_transition running_sleep
        log_traffic_cycle_def split: sum.splits prod.splits)

lemma slot_normal:
  "\<forall>t l. ForceEmergency l \<notin> set (calls w t) \<Longrightarrow>
   force_emergency_lane (state_of (handle_normal_cycle w s)) = force_emergency_lane s"
  by (simp add: handle_normal_cycle_def Let_def slot_transition slot_sleep
        log_traffic_cycle_def split: sum.splits prod.splits)

lemma running_emergency:
  "\<forall>t. Stop \<notin> set (calls w t) \<Longrightarrow>
   running (state_of (handle_emergency_override w e s)) = running s"
  by (simp add: handle_emergency_override_def Let_def running_transition running_sleep
        log_traffic_cycle_def split: sum.splits prod.splits)

lemma slot_emergency:
  "\<forall>t l. ForceEmergency l \<notin> set (calls w t) \<Longrightarrow>
   force_emergency_lane (state_of (handle_emergency_override w e s)) = force_emergency_lane s"
  by (simp add: handle_emergency_override_def Let_def slot_transition slot_sleep
        log_traffic_cycle_def split: sum.splits prod.splits)

lemma running_check: "running (state_of (check_emergency_conditions w s)) = running s"
  using check_state [of w s] by auto

lemma slot_check:
  "\<not> truthy (force_emergency_lane (state_of (check_emergency_conditions w s)))"
  by (simp add: check_emergency_conditions_def split: sum.splits)

lemma running_cycle:
  "\<forall>t. Stop \<notin> set (calls w t) \<Longrightarrow> running (state_of (cycle w s)) = running s"
proof -
  assume q: "\<forall>t. Stop \<notin> set (calls w t)"
  show ?thesis
  proof (cases "check_emergency_conditions w s")
    case (Return r s1)
    then have "running s1 = running s" using running_check [of w s] by simp
    then show ?thesis
      using Return running_emergency [OF q, of "the r" "s1\<lparr>mode := EMERGENCY\<rparr>"]
        running_normal [OF q, of "s1\<lparr>mode := NORMAL\<rparr>"]
      by (simp add: cycle_def)
  next
    case (Raised e s1)
    then have "running s1 = running s" using running_check [of w s] by simp
    then show ?thesis using Raised by (simp add: cycle_def)
  qed
qed

lemma slot_cycle:
  "\<forall>t l. ForceEmergency l \<notin> set (calls w t) \<Longrightarrow>
   \<not> truthy (force_emergency_lane (state_of (cycle w s)))"
proof -
  assume q: "\<forall>t l. ForceEmergency l \<notin> set (calls w t)"
  show ?thesis
  proof (cases "check_emergency_conditions w s")
    case (Return r s1)
    then have "\<not> truthy (force_emergency_lane s1)" using slot_check [of w s] by simp
    then show ?thesis
      using Return slot_emergency [OF q, of "the r" "s1\<lparr>mode := EMERGENCY\<rparr>"]
        slot_normal [OF q, of "s1\<lparr>mode := NORMAL\<rparr>"]
      by (simp add: cycle_def)
  next
    case (Raised e s1)
    then have "\<not> truthy (force_emergency_lane s1)" using slot_check [of w s] by simp
    then show ?thesis using Raised by (simp add: cycle_def)
  qed
qed

lemma running_iteration:
  "\<forall>t. Stop \<notin> set (calls w t) \<Longrightarrow> running (iteration w s) = running s"
  using running_cycle [of w s]
  by (cases "cycle w s") (simp_all add: iteration_def running_sleep)

lemma slot_iteration:
  "\<forall>t l. ForceEmergency l \<notin> set (calls w t) \<Longrightarrow>
   \<not> truthy (force_emergency_lane (iteration w s))"
  using slot_cycle [of w s]
  by (cases "cycle w s") (simp_all add: iteration_def slot_sleep)

lemma run_loop_never_exits:
  "\<forall>t. Stop \<notin> set (calls w t) \<Longrightarrow> running s \<Longrightarrow> run_loop w n s = None"
proof (induction n arbitrary: s)
  case 0
  then show ?case by simp
next
  case (Suc n)
  have "running (iteration w s)" using Suc.prems by (simp add: running_iteration)
  with Suc show ?case by simp
qed

lemma normal_cycles_totals:
  "normal_cycles w n s = Return () s' \<Longrightarrow>
   cycle_count s' = cycle_count s + int n
   \<and> (\<exists>new. db_calls s' = db_calls s @ new \<and> length new = n
        \<and> total_wait_time_saved s' =
            total_wait_time_saved s + (\<Sum>c\<leftarrow>new. max 0 (60 - green_duration c)))"
proof (induction n arbitrary: s)
  case 0
  then show ?case by simp
next
  case (Suc n)
  from Suc.prems obtain s1 where h: "handle_normal_cycle w s = Return () s1"
    and r: "normal_cycles w n s1 = Return () s'"
    by (auto split: outcome.splits)
  from h obtain cs amb where d: "lane_data_at (detection w) (clock s) (current_lane s) = Inr (cs, amb)"
    by (auto simp: handle_normal_cycle_def Let_def split: sum.splits prod.splits)
  let ?c = "\<lparr>lane_id = current_lane s, vehicle_counts = cs, ambulance_detected = amb,
            green_duration = calculate_green_duration (sum_values cs),
            signal_mode = (if amb then EMERGENCY else mode s)\<rparr>"
  from normal_cycle_effect [OF d] h
  have s1: "cycle_count s1 = cycle_count s + 1"
    "total_wait_time_saved s1 =
       total_wait_time_saved s + max 0 (60 - calculate_green_duration (sum_values cs))"
    "db_calls s1 = db_calls s @ [?c]"
    by auto
  from Suc.IH [OF r] obtain new where n: "db_calls s' = db_calls s1 @ new" "length new = n"
    "total_wait_time_saved s' =
       total_wait_time_saved s1 + (\<Sum>c\<leftarrow>new. max 0 (60 - green_duration c))"
    and c: "cycle_count s' = cycle_count s1 + int n"
    by blast
  have "db_calls s' = db_calls s @ (?c # new) \<and> length (?c # new) = Suc n
        \<and> total_wait_time_saved s' =
            total_wait_time_saved s + (\<Sum>c\<leftarrow>?c # new. max 0 (60 - green_duration c))"
    using n s1 by simp
  then show ?case using c s1 by (intro conjI exI [of _ "?c # new"]) simp_all
qed

lemma first_ambulance_none:
  "first_ambulance (get_all_lane_data ps) = None \<longleftrightarrow> (\<forall>p \<in> set ps. \<not> is_ambulance p)"
  by (simp add: first_ambulance_all) (metis in_set_conv_nth)

lemma first_ambulance_lowest:
  "first_ambulance (get_all_lane_data ps) = Some l \<longleftrightarrow>
     1 \<le> l \<and> l \<le> int (length ps) \<and> is_ambulance (ps ! nat (l - 1))
     \<and> (\<forall>l'. 1 \<le> l' \<and> l' < l \<longrightarrow> \<not> is_ambulance (ps ! nat (l' - 1)))"
proof (cases "\<exists>i < length ps. is_ambulance (ps ! i)")
  case False
  then show ?thesis
    by (auto simp: first_ambulance_all)
next
  case True
  let ?P = "\<lambda>i. i < length ps \<and> is_ambulance (ps ! i)"
  let ?m = "Least ?P"
  have P: "?P ?m" using True by (metis (mono_tags, lifting) LeastI)
  have least: "\<And>j. j < ?m \<Longrightarrow> \<not> ?P j" by (rule not_less_Least)
  have eq: "first_ambulance (get_all_lane_data ps) = Some (1 + int ?m)"
    using True by (simp add: first_ambulance_all)
  show ?thesis
  proof
    assume "first_ambulance (get_all_lane_data ps) = Some l"
    then have l: "l = 1 + int ?m" using eq by simp
    have "\<not> is_ambulance (ps ! nat (l' - 1))" if "1 \<le> l'" "l' < l" for l'
    proof -
      have "nat (l' - 1) < ?m" using that l by linarith
      moreover have "nat (l' - 1) < length ps" using calculation P by linarith
      ultimately show ?thesis using least by blast
    qed
    then show "1 \<le> l \<and> l \<le> int (length ps) \<and> is_ambulance (ps ! nat (l - 1))
       \<and> (\<forall>l'. 1 \<le> l' \<and> l' < l \<longrightarrow> \<not> is_ambulance (ps ! nat (l' - 1)))"
      using P l by auto
  next
    assume a: "1 \<le> l \<and> l \<le> int (length ps) \<and> is_ambulance (ps ! nat (l - 1))
       \<and> (\<forall>l'. 1 \<le> l' \<and> l' < l \<longrightarrow> \<not> is_ambulance (ps ! nat (l' - 1)))"
    then have "?P (nat (l - 1))" by auto
    then have le: "?m \<le> nat (l - 1)" by (rule Least_le)
    have "\<not> ?m < nat (l - 1)"
    proof
      assume lt: "?m < nat (l - 1)"
      then have "1 \<le> 1 + int ?m \<and> 1 + int ?m < l" by linarith
      then have "\<not> is_ambulance (ps ! nat (1 + int ?m - 1))" using a by blast
      then show False using P by simp
    qed
    then have "?m = nat (l - 1)" using le by simp
    then show "first_ambulance (get_all_lane_data ps) = Some l" using eq a by simp
  qed
qed

lemma multi_lane_no_ambulance:
  assumes "\<forall>t. \<forall>p \<in> set (feed t). \<not> is_ambulance p"
  shows "first_ambulance (get_all_lane_data (make_processors (feed t))) = None"
    and "snd (get_lane_data (make_processors (feed t)) l) = False"
proof -
  have sub: "set (make_processors (feed t)) \<subseteq> set (feed t)"
    by (simp add: make_processors_def set_take_subset)
  then show "first_ambulance (get_all_lane_data (make_processors (feed t))) = None"
    using assms by (auto simp: first_ambulance_none)
  show "snd (get_lane_data (make_processors (feed t)) l) = False"
  proof (cases "1 \<le> l \<and> l \<le> int (length (make_processors (feed t)))")
    case True
    then have "make_processors (feed t) ! nat (l - 1) \<in> set (make_processors (feed t))"
      by (intro nth_mem) linarith
    then show ?thesis using True sub assms by (auto simp: get_lane_data_def get_data_def)
  next
    case False
    then show ?thesis by (auto simp: get_lane_data_def)
  qed
qed

lemma quiet_iteration:
  assumes d: "detection w = multi_lane feed"
    and na: "\<forall>t. \<forall>p \<in> set (feed t). \<not> is_ambulance p"
    and nc: "\<forall>t. calls w t = []"
    and slot: "force_emergency_lane s = None"
  shows "current_lane (iteration w s) = current_lane s mod 4 + 1
    \<and> cycle_count (iteration w s) = cycle_count s + 1
    \<and> emergency_count (iteration w s) = emergency_count s
    \<and> running (iteration w s) = running s
    \<and> force_emergency_lane (iteration w s) = None"
proof -
  let ?s = "s\<lparr>mode := NORMAL\<rparr>"
  have chk: "check_emergency_conditions w s = Return None s"
    using slot d multi_lane_no_ambulance(1) [OF na]
    by (simp add: check_emergency_conditions_def multi_lane_def)
  then have cyc: "cycle w s = handle_normal_cycle w ?s" by (simp add: cycle_def)
  obtain cs where ld: "lane_data_at (detection w) (clock ?s) (current_lane ?s) = Inr (cs, False)"
    using d multi_lane_no_ambulance(2) [OF na, of "clock s" "current_lane s"]
    by (cases "get_lane_data (make_processors (feed (clock s))) (current_lane s)")
       (simp add: multi_lane_def)
  from normal_cycle_effect [OF ld] obtain s' where s': "handle_normal_cycle w ?s = Return () s'"
    "current_lane s' = current_lane s mod 4 + 1" "cycle_count s' = cycle_count s + 1"
    "emergency_count s' = emergency_count s"
    by auto
  have q1: "\<forall>t. Stop \<notin> set (calls w t)" and q2: "\<forall>t l. ForceEmergency l \<notin> set (calls w t)"
    using nc by simp_all
  have "running s' = running s" using running_normal [OF q1, of ?s] s'(1) by simp
  moreover have "force_emergency_lane s' = None"
    using slot_normal [OF q2, of ?s] s'(1) slot by simp
  ultimately show ?thesis using s' cyc by (simp add: iteration_def)
qed

lemma quiet_passes:
  assumes d: "detection w = multi_lane feed"
    and na: "\<forall>t. \<forall>p \<in> set (feed t). \<not> is_ambulance p"
    and nc: "\<forall>t. calls w t = []"
  shows "force_emergency_lane s = None \<Longrightarrow> running s \<Longrightarrow>
    1 \<le> current_lane s \<Longrightarrow> current_lane s \<le> 4 \<Longrightarrow>
    current_lane (passes w n s) = (current_lane s - 1 + int n) mod 4 + 1
    \<and> cycle_count (passes w n s) = cycle_count s + int n
    \<and> emergency_count (passes w n s) = emergency_count s"
proof (induction n arbitrary: s)
  case 0
  then show ?case by simp
next
  case (Suc n)
  note it = quiet_iteration [OF d na nc Suc.prems(1)]
  have r: "running (iteration w s)" using it Suc.prems(2) by simp
  have lo: "1 \<le> current_lane (iteration w s)" and hi: "current_lane (iteration w s) \<le> 4"
    using it by simp_all
  have f: "force_emergency_lane (iteration w s) = None" using it by simp
  have "(current_lane s mod 4 + 1 - 1 + int n) mod 4 = (current_lane s - 1 + int (Suc n)) mod 4"
    by (simp add: mod_add_left_eq)
  then show ?case
    using Suc.IH [OF f r lo hi] it Suc.prems(2) by simp
qed

lemma normal_cycles_return:
  "detection w = multi_lane feed \<Longrightarrow> \<exists>s'. normal_cycles w n s = Return () s'"
proof (induction n arbitrary: s)
  case 0
  then show ?case by simp
next
  case (Suc n)
  obtain cs amb where "lane_data_at (detection w) (clock s) (current_lane s) = Inr (cs, amb)"
    using Suc.prems
    by (cases "get_lane_data (make_processors (feed (clock s))) (current_lane s)")
       (simp add: multi_lane_def)
  from normal_cycle_effect [OF this] obtain s1 where "handle_normal_cycle w s = Return () s1"
    by blast
  then show ?case using Suc.IH [OF Suc.prems, of s1] by simp
qed

lemma clock_fold_apply_call: "clock (fold apply_call cs s) = clock s"
  using fold_apply_call_frame [of cs s] by auto

lemma slot_sleep_after:
  "\<forall>t > clock s. \<forall>l. ForceEmergency l \<notin> set (calls w t) \<Longrightarrow>
   force_emergency_lane (sleep w d s) = force_emergency_lane s"
proof (induction d arbitrary: s)
  case 0
  then show ?case by simp
next
  case (Suc d)
  let ?s1 = "fold apply_call (calls w (Suc (clock s))) (s\<lparr>clock := Suc (clock s)\<rparr>)"
  have c: "clock ?s1 = Suc (clock s)" by (simp add: clock_fold_apply_call)
  have f: "force_emergency_lane ?s1 = force_emergency_lane s"
    using Suc.prems by (simp add: slot_fold)
  have "\<forall>t > clock ?s1. \<forall>l. ForceEmergency l \<notin> set (calls w t)"
    using Suc.prems c by simp
  from Suc.IH [OF this] f show ?case by simp
qed

lemma slot_transition_after:
  "\<forall>t > clock s. \<forall>l. ForceEmergency l \<notin> set (calls w t) \<Longrightarrow>
   force_emergency_lane (transition_to_lane w a b s) = force_emergency_lane s"
  by (simp add: transition_to_lane_def Let_def slot_sleep_after set_lane_fields sleep_fields)

lemma sleep_add: "sleep w (a + b) s = sleep w b (sleep w a s)"
  by (induction a arbitrary: s) simp_all

lemma normal_pass:
  assumes "\<not> truthy (force_emergency_lane s)"
    and "all_lane_data_at (detection w) (clock s) = Inr data"
    and "first_ambulance data = None"
    and "handle_normal_cycle w (s\<lparr>mode := NORMAL\<rparr>) = Return () s'"
  shows "iteration w s = s'"
proof -
  have "check_emergency_conditions w s = Return None s"
    using assms(1-3) by (simp add: check_emergency_conditions_def)
  then have "cycle w s = handle_normal_cycle w (s\<lparr>mode := NORMAL\<rparr>)"
    by (simp add: cycle_def)
  then show ?thesis using assms(4) by (simp add: iteration_def)
qed

subsection \<open>Integer division to a float\<close>

lemma bit_length_bounds: "0 < n \<Longrightarrow> 2 ^ (bit_length n - 1) \<le> n \<and> n < 2 ^ bit_length n"
proof (induction n rule: bit_length.induct)
  case (1 n)
  show ?case
  proof (cases "n div 2 = 0")
    case True
    then have n1: "n = Suc 0" using "1.prems" by (simp add: div_eq_0_iff)
    have "bit_length (Suc 0) = Suc 0"
      by (simp add: bit_length.simps [of "Suc 0"] bit_length.simps [of 0])
    then show ?thesis unfolding n1 by simp
  next
    case False
    then have pos: "0 < n div 2" by simp
    have ih: "2 ^ (bit_length (n div 2) - 1) \<le> n div 2 \<and> n div 2 < 2 ^ bit_length (n div 2)"
      using "1.IH" "1.prems" pos by simp
    have bl: "bit_length n = Suc (bit_length (n div 2))"
      using "1.prems" by (subst bit_length.simps) simp
    have bp: "0 < bit_length (n div 2)"
      using pos by (subst bit_length.simps) simp
    have lo: "2 ^ (bit_length n - 1) \<le> n"
    proof -
      have "(2::nat) ^ bit_length (n div 2) = 2 * 2 ^ (bit_length (n div 2) - 1)"
        using bp by (cases "bit_length (n div 2)") simp_all
      also have "\<dots> \<le> 2 * (n div 2)" using ih by simp
      also have "\<dots> \<le> n" by simp
      finally show ?thesis by (simp add: bl)
    qed
    have hi: "n < 2 ^ bit_length n"
    proof -
      have "n < 2 * (n div 2 + 1)" by presburger
      also have "\<dots> \<le> 2 * 2 ^ bit_length (n div 2)" using ih by simp
      finally show ?thesis by (simp add: bl)
    qed
    from lo hi show ?thesis by simp
  qed
qed

lemma pow2_pos: "0 < pow2 k"
  by (simp add: pow2_def)

lemma pow2_powi: "pow2 k = 2 powi k"
  unfolding pow2_def power_int_def by (simp add: inverse_eq_divide power_one_over)

lemma pow2_mono: "a \<le> b \<Longrightarrow> pow2 a \<le> pow2 b"
  by (simp add: pow2_powi power_int_increasing)

lemma pow2_less_imp: "pow2 a < pow2 b \<Longrightarrow> a < b"
  using pow2_mono [of b a] by (cases "a < b") simp_all

lemma pow2_nat_diff: "pow2 (int x - int y) = 2 ^ x / 2 ^ y"
  by (simp add: pow2_powi power_int_diff)

lemma binade_le:
  assumes "0 < a" and "0 < b"
  shows "pow2 (binade a b) \<le> of_nat a / of_nat b"
proof (cases "pow2 (int (bit_length a) - int (bit_length b)) \<le> of_nat a / of_nat b")
  case True
  then show ?thesis by (simp add: binade_def)
next
  case False
  have ba: "2 ^ (bit_length a - 1) \<le> a" and bb: "b < 2 ^ bit_length b"
    using bit_length_bounds assms by blast+
  have pa: "0 < bit_length a"
    using assms(1) by (subst bit_length.simps) simp
  have "int (bit_length a) - int (bit_length b) - 1 = int (bit_length a - 1) - int (bit_length b)"
    using pa by linarith
  then have "pow2 (int (bit_length a) - int (bit_length b) - 1)
      = pow2 (int (bit_length a - 1) - int (bit_length b))"
    by (rule arg_cong)
  also have "\<dots> = 2 ^ (bit_length a - 1) / 2 ^ bit_length b"
    by (rule pow2_nat_diff)
  also have "\<dots> \<le> of_nat a / of_nat b"
  proof (rule frac_le)
    show "(0::rat) \<le> of_nat a" by simp
    have "(of_nat (2 ^ (bit_length a - 1)) :: rat) \<le> of_nat a"
      using ba by (simp only: of_nat_le_iff)
    then show "(2::rat) ^ (bit_length a - 1) \<le> of_nat a" by simp
    show "(0::rat) < of_nat b" using assms(2) by simp
    have "(of_nat b :: rat) \<le> of_nat (2 ^ bit_length b)"
      using bb by (simp only: of_nat_le_iff)
    then show "(of_nat b :: rat) \<le> 2 ^ bit_length b" by simp
  qed
  finally show ?thesis using False by (simp add: binade_def)
qed

lemma round_half_even_close: "\<bar>of_int (round_half_even x) - x\<bar> \<le> 1 / 2"
proof -
  have lo: "of_int \<lfloor>x\<rfloor> \<le> x" and hi: "x < of_int \<lfloor>x\<rfloor> + 1"
    by linarith+
  show ?thesis
    unfolding round_half_even_def Let_def using lo hi by auto
qed

lemma py_truediv_small:
  assumes "0 \<le> a" and "0 < b" and "a \<le> 45 * b"
  shows "\<exists>r. py_truediv a b = Inr r \<and> \<bar>r - of_int a / of_int b\<bar> \<le> 1 / 2 ^ 48"
proof (cases "a = 0")
  case True
  then show ?thesis using assms(2) by (simp add: py_truediv_def)
next
  case False
  define n where "n = nat \<bar>a\<bar>"
  define d where "d = nat \<bar>b\<bar>"
  define q :: rat where "q = of_nat n / of_nat d"
  define k where "k = max (binade n d - 52) (- 1074)"
  define m where "m = round_half_even (q / pow2 k)"
  have n: "0 < n" "int n = a" and d: "0 < d" "int d = b"
    using assms False by (simp_all add: n_def d_def)
  have qa: "q = of_int a / of_int b"
    unfolding q_def using n(2) d(2) by (metis of_int_of_nat_eq)
  have "q \<le> 45"
  proof -
    have "(of_int a :: rat) \<le> of_int (45 * b)" using assms(3) by (simp only: of_int_le_iff)
    then have "(of_int a :: rat) \<le> 45 * of_int b" by simp
    moreover have "(0::rat) < of_int b" using assms(2) by simp
    ultimately show ?thesis unfolding qa by (simp add: pos_divide_le_eq)
  qed
  have "pow2 (binade n d) \<le> q" unfolding q_def using n(1) d(1) by (rule binade_le)
  also have "q < pow2 6" using \<open>q \<le> 45\<close> by (simp add: pow2_def)
  finally have "binade n d < 6" by (rule pow2_less_imp)
  then have k47: "k \<le> - 47" by (simp add: k_def)
  have kp: "0 < pow2 k" by (rule pow2_pos)
  have "\<bar>of_int m - q / pow2 k\<bar> \<le> 1 / 2"
    unfolding m_def by (rule round_half_even_close)
  then have "\<bar>of_int m - q / pow2 k\<bar> * pow2 k \<le> 1 / 2 * pow2 k"
    using kp by (simp add: mult_right_mono)
  moreover have "\<bar>of_int m - q / pow2 k\<bar> * pow2 k = \<bar>of_int m * pow2 k - q\<bar>"
  proof -
    have "\<bar>of_int m - q / pow2 k\<bar> * pow2 k = \<bar>(of_int m - q / pow2 k) * pow2 k\<bar>"
      using kp by (simp add: abs_mult)
    also have "(of_int m - q / pow2 k) * pow2 k = of_int m * pow2 k - q"
      using kp by (simp add: algebra_simps)
    finally show ?thesis .
  qed
  moreover have "1 / 2 * pow2 k \<le> 1 / 2 * pow2 (- 47)"
    using pow2_mono [OF k47] by simp
  moreover have "1 / 2 * pow2 (- 47) = 1 / 2 ^ 48"
    by (simp add: pow2_def)
  ultimately have close: "\<bar>of_int m * pow2 k - q\<bar> \<le> 1 / 2 ^ 48" by linarith
  have "(1::rat) / 2 ^ 48 \<le> 1" by simp
  then have "of_int m * pow2 k \<le> 46" using close \<open>q \<le> 45\<close> by linarith
  moreover have "(46::rat) < pow2 1024"
  proof -
    have "(46::rat) < pow2 6" by (simp add: pow2_def)
    also have "\<dots> \<le> pow2 1024" by (rule pow2_mono) simp
    finally show ?thesis .
  qed
  ultimately have small: "\<not> of_int m * pow2 k \<ge> pow2 1024" by linarith
  have sg: "(a < 0) = (b < 0)" using assms by simp
  have "py_truediv a b = Inr (of_int m * pow2 k)"
    using False assms(2) small sg
    unfolding py_truediv_def Let_def m_def k_def q_def n_def d_def by simp
  then show ?thesis using close qa by simp
qed

lemma normal_cycles_saved_bounds:
  "normal_cycles w n s = Return () s' \<Longrightarrow>
   total_wait_time_saved s \<le> total_wait_time_saved s'
   \<and> total_wait_time_saved s' \<le> total_wait_time_saved s + 45 * int n"
proof (induction n arbitrary: s)
  case 0
  then show ?case by simp
next
  case (Suc n)
  from Suc.prems obtain s1 where h: "handle_normal_cycle w s = Return () s1"
    and r: "normal_cycles w n s1 = Return () s'"
    by (auto split: outcome.splits)
  from h obtain cs amb where d: "lane_data_at (detection w) (clock s) (current_lane s) = Inr (cs, amb)"
    by (auto simp: handle_normal_cycle_def Let_def split: sum.splits prod.splits)
  from normal_cycle_effect [OF d] h
  have "total_wait_time_saved s1 =
       total_wait_time_saved s + max 0 (60 - calculate_green_duration (sum_values cs))"
    by auto
  then have "total_wait_time_saved s \<le> total_wait_time_saved s1
     \<and> total_wait_time_saved s1 \<le> total_wait_time_saved s + 45"
    by (simp add: calculate_green_duration_def)
  with Suc.IH [OF r] show ?case by simp
qed

section \<open>Green duration\<close>

text \<open>
  C2. For every vehicle count \<open>v\<close> (the non-negative ones among them) the green duration
  is 60 when \<open>v > 15\<close>, 30 when \<open>5 \<le> v \<le> 15\<close> and 15 when \<open>v < 5\<close>; the counts 20, 10, 3
  give 60, 30, 15 and the boundary counts 15, 5, 4 give 30, 30, 15.
\<close>

theorem calculate_green_duration_tiers:
  "calculate_green_duration v =
     (if v > 15 then 60 else if 5 \<le> v \<and> v \<le> 15 then 30 else 15)
   \<and> calculate_green_duration 20 = 60
   \<and> calculate_green_duration 10 = 30
   \<and> calculate_green_duration 3 = 15
   \<and> calculate_green_duration 15 = 30
   \<and> calculate_green_duration 5 = 30
   \<and> calculate_green_duration 4 = 15"
  by (simp add: calculate_green_duration_def)

section \<open>Manual override\<close>

text \<open>
  C5. The override is one slot. A second \<^verbatim>\<open>force_emergency\<close> call overwrites the
  pending lane and leaves no trace of the first. When the scheduler checks for
  emergencies and finds a pending lane \<open>l\<close> (lane ids are 1 to 4, so \<open>l \<noteq> 0\<close>), it returns
  \<open>l\<close> and clears the slot in the same step. After two calls \<^verbatim>\<open>force_emergency(3)\<close> and one
  pass of the scheduler loop the slot is empty, provided nobody presses an emergency
  button again while that pass is under way.
\<close>

theorem override_single_slot:
  "force_emergency l2 (force_emergency l1 s) = force_emergency l2 s
   \<and> force_emergency_lane (force_emergency l2 (force_emergency l1 s)) = Some l2
   \<and> (l \<noteq> 0 \<longrightarrow>
        check_emergency_conditions w (force_emergency l s)
          = Return (Some l) ((force_emergency l s)\<lparr>force_emergency_lane := None\<rparr>))
   \<and> ((\<forall>t k. ForceEmergency k \<notin> set (calls w t)) \<longrightarrow>
        force_emergency_lane (iteration w (force_emergency 3 (force_emergency 3 s))) = None)"
proof -
  have a: "force_emergency l2 (force_emergency l1 s) = force_emergency l2 s"
    by (simp add: force_emergency_def)
  have b: "force_emergency_lane (force_emergency l2 (force_emergency l1 s)) = Some l2"
    by (simp add: force_emergency_def)
  have c: "l \<noteq> 0 \<longrightarrow>
        check_emergency_conditions w (force_emergency l s)
          = Return (Some l) ((force_emergency l s)\<lparr>force_emergency_lane := None\<rparr>)"
    by (simp add: check_emergency_conditions_def force_emergency_def)
  have d: "force_emergency_lane (iteration w (force_emergency 3 (force_emergency 3 s))) = None"
    if q: "\<forall>t k. ForceEmergency k \<notin> set (calls w t)"
  proof -
    let ?s0 = "force_emergency 3 (force_emergency 3 s)"
    let ?s1 = "?s0\<lparr>force_emergency_lane := None, mode := EMERGENCY\<rparr>"
    have chk: "check_emergency_conditions w ?s0 = Return (Some 3) (?s0\<lparr>force_emergency_lane := None\<rparr>)"
      by (simp add: check_emergency_conditions_def force_emergency_def)
    have cyc: "cycle w ?s0 = handle_emergency_override w 3 ?s1"
      by (simp add: cycle_def chk)
    have "force_emergency_lane (state_of (handle_emergency_override w 3 ?s1)) = None"
      using slot_emergency [OF q, of 3 ?s1] by simp
    then have "force_emergency_lane (state_of (cycle w ?s0)) = None" by (simp add: cyc)
    then show ?thesis
      by (cases "cycle w ?s0") (simp_all add: iteration_def slot_sleep [OF q])
  qed
  from a b c d show ?thesis by blast
qed

theorem override_single_slot_witness:
  "(3::int) \<noteq> 0
   \<and> (\<forall>t k. ForceEmergency k \<notin> set (calls steady_world t))
   \<and> check_emergency_conditions steady_world (force_emergency 3 init)
        = Return (Some 3) ((force_emergency 3 init)\<lparr>force_emergency_lane := None\<rparr>)
   \<and> force_emergency_lane
        (iteration steady_world (force_emergency 3 (force_emergency 3 (run_init init)))) = None"
proof -
  have q: "\<forall>t k. ForceEmergency k \<notin> set (calls steady_world t)"
    by (simp add: steady_world_def)
  have n: "(3::int) \<noteq> 0" by simp
  have c: "check_emergency_conditions steady_world (force_emergency 3 init)
        = Return (Some 3) ((force_emergency 3 init)\<lparr>force_emergency_lane := None\<rparr>)"
    using override_single_slot [of 3 3 init 3 steady_world] n by blast
  have d: "force_emergency_lane
        (iteration steady_world (force_emergency 3 (force_emergency 3 (run_init init)))) = None"
    using override_single_slot [of 3 3 "run_init init" 3 steady_world] q by blast
  from n q c d show ?thesis by blast
qed

section \<open>Choice of the emergency lane\<close>

text \<open>
  C6. With the detection system of this repository, \<^verbatim>\<open>check_emergency_conditions\<close> is a
  function of the override slot and of the ambulance flags the processors hold at the
  moment of the call. A pending override \<open>l\<close> (lane ids are 1 to 4, so \<open>l \<noteq> 0\<close>) is
  returned and the slot cleared, whatever the lanes report. With no override pending,
  the result is the lowest-numbered lane whose processor reports an ambulance, and
  \<^verbatim>\<open>None\<close> exactly when no processor reports one.
\<close>

theorem emergency_lane_choice:
  assumes "detection w = multi_lane feed"
    and "ps = make_processors (feed (clock s))"
  shows "(force_emergency_lane s = Some l \<and> l \<noteq> 0 \<longrightarrow>
            check_emergency_conditions w s = Return (Some l) (s\<lparr>force_emergency_lane := None\<rparr>))
    \<and> (force_emergency_lane s = None \<longrightarrow>
         (\<exists>r. check_emergency_conditions w s = Return r s
            \<and> (r = None \<longleftrightarrow> (\<forall>p \<in> set ps. \<not> is_ambulance p))
            \<and> (\<forall>e. r = Some e \<longleftrightarrow>
                  1 \<le> e \<and> e \<le> int (length ps) \<and> is_ambulance (ps ! nat (e - 1))
                  \<and> (\<forall>e'. 1 \<le> e' \<and> e' < e \<longrightarrow> \<not> is_ambulance (ps ! nat (e' - 1))))))"
  using assms
  by (simp add: check_emergency_conditions_def multi_lane_def first_ambulance_none
        first_ambulance_lowest)

theorem emergency_lane_choice_witness:
  "detection two_ambulances_world = multi_lane two_ambulances_feed
   \<and> force_emergency_lane init = None
   \<and> check_emergency_conditions two_ambulances_world init = Return (Some 2) init
   \<and> force_emergency_lane (force_emergency 4 init) = Some 4
   \<and> check_emergency_conditions two_ambulances_world (force_emergency 4 init)
       = Return (Some 4) ((force_emergency 4 init)\<lparr>force_emergency_lane := None\<rparr>)"
proof -
  have d: "detection two_ambulances_world = multi_lane two_ambulances_feed"
    by (simp add: two_ambulances_world_def)
  have n: "force_emergency_lane init = None" by (simp add: init_def)
  have f: "force_emergency_lane (force_emergency 4 init) = Some 4"
    by (simp add: force_emergency_def)
  let ?ps = "make_processors (two_ambulances_feed (clock init))"
  from emergency_lane_choice [OF d refl, of init 4] n
  obtain r where r: "check_emergency_conditions two_ambulances_world init = Return r init"
    and low: "\<forall>e. r = Some e \<longleftrightarrow>
                  1 \<le> e \<and> e \<le> int (length ?ps) \<and> is_ambulance (?ps ! nat (e - 1))
                  \<and> (\<forall>e'. 1 \<le> e' \<and> e' < e \<longrightarrow> \<not> is_ambulance (?ps ! nat (e' - 1)))"
    by blast
  have "1 \<le> (2::int) \<and> 2 \<le> int (length ?ps) \<and> is_ambulance (?ps ! nat (2 - 1))
      \<and> (\<forall>e'. 1 \<le> e' \<and> e' < 2 \<longrightarrow> \<not> is_ambulance (?ps ! nat (e' - 1)))"
  proof (intro conjI allI impI)
    show "1 \<le> (2::int)" by simp
    show "2 \<le> int (length ?ps)"
      by (simp add: make_processors_def two_ambulances_feed_def)
    show "is_ambulance (?ps ! nat (2 - 1))"
      by (simp add: make_processors_def two_ambulances_feed_def lane_with_def)
    fix e' :: int
    assume "1 \<le> e' \<and> e' < 2"
    then have "e' = 1" by simp
    then show "\<not> is_ambulance (?ps ! nat (e' - 1))"
      by (simp add: make_processors_def two_ambulances_feed_def lane_with_def)
  qed
  then have "r = Some 2" using low by blast
  with r have c1: "check_emergency_conditions two_ambulances_world init = Return (Some 2) init"
    by simp
  have c2: "check_emergency_conditions two_ambulances_world (force_emergency 4 init)
       = Return (Some 4) ((force_emergency 4 init)\<lparr>force_emergency_lane := None\<rparr>)"
    using emergency_lane_choice [OF d refl, of "force_emergency 4 init" 4] f by simp
  from d n c1 f c2 show ?thesis by blast
qed

section \<open>Wait time saved\<close>

text \<open>
  C10. The emergency handler leaves \<^verbatim>\<open>total_wait_time_saved\<close> as it found it, whether the
  emergency lane is the active lane or not, and whether the handler returns or raises.
  So do all the other steps of the scheduler apart from the normal cycle: the emergency
  check, a sleep, a transition, a manual override, a stop request and the start of
  \<^verbatim>\<open>run\<close>. The normal cycle adds \<open>max 0 (60 - green)\<close>, which is never negative.
\<close>

theorem wait_saved_only_in_normal_cycles:
  "total_wait_time_saved (state_of (handle_emergency_override w e s)) = total_wait_time_saved s
   \<and> total_wait_time_saved (state_of (check_emergency_conditions w s)) = total_wait_time_saved s
   \<and> total_wait_time_saved (sleep w d s) = total_wait_time_saved s
   \<and> total_wait_time_saved (transition_to_lane w a b s) = total_wait_time_saved s
   \<and> total_wait_time_saved (force_emergency l s) = total_wait_time_saved s
   \<and> total_wait_time_saved (stop s) = total_wait_time_saved s
   \<and> total_wait_time_saved (run_init s) = total_wait_time_saved s
   \<and> total_wait_time_saved (state_of (handle_normal_cycle w s)) \<ge> total_wait_time_saved s"
proof -
  have 1: "total_wait_time_saved (state_of (handle_emergency_override w e s)) = total_wait_time_saved s"
    by (simp add: handle_emergency_override_def Let_def transition_to_lane_fields sleep_fields
          log_traffic_cycle_def split: sum.splits prod.splits)
  have 2: "total_wait_time_saved (state_of (check_emergency_conditions w s)) = total_wait_time_saved s"
    using check_state [of w s] by auto
  have 3: "total_wait_time_saved (state_of (handle_normal_cycle w s)) \<ge> total_wait_time_saved s"
    by (simp add: handle_normal_cycle_def Let_def transition_to_lane_fields sleep_fields
          log_traffic_cycle_def split: sum.splits prod.splits)
  show ?thesis
    using 1 2 3
    by (simp add: sleep_fields transition_to_lane_fields force_emergency_def stop_def
          run_init_def set_lane_def)
qed

section \<open>The normal cycle and the round robin\<close>

text \<open>
  C4. A normal cycle of the active lane \<open>L\<close> whose lane data can be read holds the green
  for the computed duration, writes \<open>L\<close> YELLOW, three seconds later \<open>L\<close> RED, two seconds
  later lane \<open>L mod 4 + 1\<close> GREEN, which becomes the active lane; the cycle counter goes up
  by one and the mode is NORMAL again. The controller has four lanes. With the detection
  system of this repository, no ambulance in view and nobody at the dashboard, the
  active lane after \<open>k\<close> passes of the loop started by \<^verbatim>\<open>run\<close> is \<open>k mod 4 + 1\<close>: the
  sequence 1, 2, 3, 4, 1, 2, ... with one completed cycle per pass.
\<close>

theorem normal_cycle_round_robin:
  "(lane_data_at (detection w) (clock s) (current_lane s) = Inr (cs, amb)
      \<and> yellow_duration s = 3 \<and> transition_delay s = 2 \<longrightarrow>
      (\<exists>s'. handle_normal_cycle w s = Return () s'
         \<and> signal_log s' = signal_log s @
             [(clock s + nat (calculate_green_duration (sum_values cs)),
               dict_set (lane_states s) (current_lane s) YELLOW),
              (clock s + nat (calculate_green_duration (sum_values cs)) + 3,
               dict_set (dict_set (lane_states s) (current_lane s) YELLOW) (current_lane s) RED),
              (clock s + nat (calculate_green_duration (sum_values cs)) + 5, lane_states s')]
         \<and> get_lane_state (current_lane s) s' = RED
         \<and> get_lane_state (current_lane s mod 4 + 1) s' = GREEN
         \<and> current_lane s' = current_lane s mod 4 + 1
         \<and> cycle_count s' = cycle_count s + 1
         \<and> mode s' = NORMAL))
   \<and> (detection w = multi_lane feed \<and> (\<forall>t. \<forall>p \<in> set (feed t). \<not> is_ambulance p)
        \<and> (\<forall>t. calls w t = []) \<longrightarrow>
        current_lane (passes w k (run_init init)) = int (k mod 4) + 1
        \<and> cycle_count (passes w k (run_init init)) = int k
        \<and> emergency_count (passes w k (run_init init)) = 0)"
proof (rule conjI; rule impI)
  assume a: "lane_data_at (detection w) (clock s) (current_lane s) = Inr (cs, amb)
      \<and> yellow_duration s = 3 \<and> transition_delay s = 2"
  then have ld: "lane_data_at (detection w) (clock s) (current_lane s) = Inr (cs, amb)"
    and y: "yellow_duration s = 3" and d: "transition_delay s = 2"
    by simp_all
  have ne: "current_lane s \<noteq> current_lane s mod 4 + 1"
    by presburger
  from normal_cycle_effect [OF ld] obtain s' where r: "handle_normal_cycle w s = Return () s'"
    and ls: "lane_states s' =
       dict_set (dict_set (dict_set (lane_states s) (current_lane s) YELLOW) (current_lane s) RED)
         (current_lane s mod 4 + 1) GREEN"
    and lg: "signal_log s' = signal_log s @
         [(clock s + nat (calculate_green_duration (sum_values cs)),
           dict_set (lane_states s) (current_lane s) YELLOW),
          (clock s + nat (calculate_green_duration (sum_values cs)) + yellow_duration s,
           dict_set (dict_set (lane_states s) (current_lane s) YELLOW) (current_lane s) RED),
          (clock s + nat (calculate_green_duration (sum_values cs)) + yellow_duration s
             + transition_delay s,
           dict_set (dict_set (dict_set (lane_states s) (current_lane s) YELLOW)
             (current_lane s) RED) (current_lane s mod 4 + 1) GREEN)]"
    and rest: "current_lane s' = current_lane s mod 4 + 1" "cycle_count s' = cycle_count s + 1"
      "mode s' = NORMAL"
    by blast
  have g1: "get_lane_state (current_lane s) s' = RED"
    using ne by (simp add: get_lane_state_def ls map_of_dict_set)
  have g2: "get_lane_state (current_lane s mod 4 + 1) s' = GREEN"
    by (simp add: get_lane_state_def ls map_of_dict_set)
  have lg': "signal_log s' = signal_log s @
             [(clock s + nat (calculate_green_duration (sum_values cs)),
               dict_set (lane_states s) (current_lane s) YELLOW),
              (clock s + nat (calculate_green_duration (sum_values cs)) + 3,
               dict_set (dict_set (lane_states s) (current_lane s) YELLOW) (current_lane s) RED),
              (clock s + nat (calculate_green_duration (sum_values cs)) + 5, lane_states s')]"
    using lg ls y d by simp
  from r lg' g1 g2 rest
  show "\<exists>s'. handle_normal_cycle w s = Return () s'
         \<and> signal_log s' = signal_log s @
             [(clock s + nat (calculate_green_duration (sum_values cs)),
               dict_set (lane_states s) (current_lane s) YELLOW),
              (clock s + nat (calculate_green_duration (sum_values cs)) + 3,
               dict_set (dict_set (lane_states s) (current_lane s) YELLOW) (current_lane s) RED),
              (clock s + nat (calculate_green_duration (sum_values cs)) + 5, lane_states s')]
         \<and> get_lane_state (current_lane s) s' = RED
         \<and> get_lane_state (current_lane s mod 4 + 1) s' = GREEN
         \<and> current_lane s' = current_lane s mod 4 + 1
         \<and> cycle_count s' = cycle_count s + 1
         \<and> mode s' = NORMAL"
    by blast
next
  assume b: "detection w = multi_lane feed \<and> (\<forall>t. \<forall>p \<in> set (feed t). \<not> is_ambulance p)
        \<and> (\<forall>t. calls w t = [])"
  then have d: "detection w = multi_lane feed"
    and na: "\<forall>t. \<forall>p \<in> set (feed t). \<not> is_ambulance p"
    and nc: "\<forall>t. calls w t = []"
    by simp_all
  have i: "force_emergency_lane (run_init init) = None" "running (run_init init)"
    "1 \<le> current_lane (run_init init)" "current_lane (run_init init) \<le> 4"
    "current_lane (run_init init) = 1" "cycle_count (run_init init) = 0"
    "emergency_count (run_init init) = 0"
    by (simp_all add: run_init_def init_def set_lane_def)
  from quiet_passes [OF d na nc i(1,2,3,4), of k]
  show "current_lane (passes w k (run_init init)) = int (k mod 4) + 1
        \<and> cycle_count (passes w k (run_init init)) = int k
        \<and> emergency_count (passes w k (run_init init)) = 0"
    by (simp add: i zmod_int)
qed

theorem normal_cycle_round_robin_witness:
  "yellow_duration (run_init init) = 3 \<and> transition_delay (run_init init) = 2
   \<and> detection steady_world = multi_lane steady_feed
   \<and> list_all (\<lambda>p. \<not> is_ambulance p) (steady_feed 0)
   \<and> (\<forall>t. calls steady_world t = [])
   \<and> lane_data_at (detection steady_world) (clock (run_init init)) (current_lane (run_init init))
       = Inr ([(''car'', 20), (''bus'', 0), (''truck'', 0), (''motorcycle'', 0)], False)
   \<and> (\<exists>s'. handle_normal_cycle steady_world (run_init init) = Return () s'
         \<and> signal_log s' =
             [(0, [(1, RED), (2, RED), (3, RED), (4, RED)]),
              (0, [(1, GREEN), (2, RED), (3, RED), (4, RED)]),
              (60, [(1, YELLOW), (2, RED), (3, RED), (4, RED)]),
              (63, [(1, RED), (2, RED), (3, RED), (4, RED)]),
              (65, [(1, RED), (2, GREEN), (3, RED), (4, RED)])]
         \<and> current_lane s' = 2 \<and> cycle_count s' = 1 \<and> mode s' = NORMAL)
   \<and> map (\<lambda>k. current_lane (passes steady_world k (run_init init))) [0, 1, 2, 3, 4, 5, 6]
       = [1, 2, 3, 4, 1, 2, 3]"
proof -
  let ?s = "run_init init"
  let ?cs = "[(''car'', 20), (''bus'', 0), (''truck'', 0), (''motorcycle'', 0)] :: counts"
  have y: "yellow_duration ?s = 3" and t: "transition_delay ?s = 2"
    by (simp_all add: run_init_def init_def set_lane_def)
  have d: "detection steady_world = multi_lane steady_feed"
    by (simp add: steady_world_def)
  have na: "\<forall>t. \<forall>p \<in> set (steady_feed t). \<not> is_ambulance p"
    by (simp add: steady_feed_def lane_with_def)
  have nc: "\<forall>t. calls steady_world t = []"
    by (simp add: steady_world_def)
  have ld: "lane_data_at (detection steady_world) (clock ?s) (current_lane ?s) = Inr (?cs, False)"
    by (simp add: steady_world_def multi_lane_def get_lane_data_def make_processors_def
          steady_feed_def lane_with_def get_data_def run_init_def init_def set_lane_def)
  note inst = normal_cycle_round_robin [of steady_world ?s ?cs False steady_feed]
  from inst [of 0] ld y t obtain s' where r: "handle_normal_cycle steady_world ?s = Return () s'"
    and lg: "signal_log s' = signal_log ?s @
             [(clock ?s + nat (calculate_green_duration (sum_values ?cs)),
               dict_set (lane_states ?s) (current_lane ?s) YELLOW),
              (clock ?s + nat (calculate_green_duration (sum_values ?cs)) + 3,
               dict_set (dict_set (lane_states ?s) (current_lane ?s) YELLOW) (current_lane ?s) RED),
              (clock ?s + nat (calculate_green_duration (sum_values ?cs)) + 5, lane_states s')]"
    and g: "get_lane_state (current_lane ?s mod 4 + 1) s' = GREEN"
    and rest: "current_lane s' = current_lane ?s mod 4 + 1" "cycle_count s' = cycle_count ?s + 1"
      "mode s' = NORMAL"
    by blast
  from normal_cycle_effect [OF ld] r
  have ls: "lane_states s' = [(1, RED), (2, GREEN), (3, RED), (4, RED)]"
    by (simp add: run_init_def init_def set_lane_def)
  have lg': "signal_log s' =
             [(0, [(1, RED), (2, RED), (3, RED), (4, RED)]),
              (0, [(1, GREEN), (2, RED), (3, RED), (4, RED)]),
              (60, [(1, YELLOW), (2, RED), (3, RED), (4, RED)]),
              (63, [(1, RED), (2, RED), (3, RED), (4, RED)]),
              (65, [(1, RED), (2, GREEN), (3, RED), (4, RED)])]"
    unfolding lg ls
    by (simp add: run_init_def init_def set_lane_def sum_values_def calculate_green_duration_def)
  have rest': "current_lane s' = 2" "cycle_count s' = 1"
    using rest by (simp_all add: run_init_def init_def set_lane_def)
  have seq: "map (\<lambda>k. current_lane (passes steady_world k (run_init init))) [0, 1, 2, 3, 4, 5, 6]
       = [1, 2, 3, 4, 1, 2, 3]"
    using inst [of 0] inst [of 1] inst [of 2] inst [of 3] inst [of 4] inst [of 5] inst [of 6] d na nc
    by simp
  have na0: "list_all (\<lambda>p. \<not> is_ambulance p) (steady_feed 0)"
    by (simp add: steady_feed_def lane_with_def)
  from y t d na0 nc ld r lg' rest' rest(3) seq show ?thesis by blast
qed

section \<open>The emergency override\<close>



section \<open>Statistics\<close>

text \<open>
  C8. Start from a controller whose counters are zero and whose log is empty, and let
  \<open>C\<close> normal cycles run to completion. Each cycle logs its green duration, so the
  durations \<open>d\<^sub>1, \<dots>, d\<^sub>C\<close> are those of the \<open>C\<close> log entries. Then \<^verbatim>\<open>get_statistics\<close> returns
  without an exception and reports \<open>C\<close> cycles and a wait time saved of
  \<open>\<Sum> max 0 (60 - d\<^sub>i)\<close>. The average per cycle is 0 when \<open>C = 0\<close>; otherwise it is the
  wait time saved divided by the cycles, as Python divides two integers: the float
  nearest to the quotient, which is within \<open>2\<^sup>-\<^sup>4\<^sup>8\<close> of it.
\<close>

theorem statistics_after_normal_cycles:
  assumes "normal_cycles w C s = Return () s'"
    and "cycle_count s = 0" and "total_wait_time_saved s = 0" and "db_calls s = []"
  shows "\<exists>st. get_statistics s' = Inr st
    \<and> total_cycles st = int C
    \<and> length (db_calls s') = C
    \<and> wait_time_saved st = (\<Sum>c\<leftarrow>db_calls s'. max 0 (60 - green_duration c))
    \<and> (if C = 0 then avg_wait_saved_per_cycle st = 0
        else Inr (avg_wait_saved_per_cycle st)
               = py_truediv (wait_time_saved st) (total_cycles st)
           \<and> \<bar>avg_wait_saved_per_cycle st
                - of_int (wait_time_saved st) / of_int (total_cycles st)\<bar> \<le> 1 / 2 ^ 48)"
proof -
  from normal_cycles_totals [OF assms(1)] obtain new
    where c: "cycle_count s' = cycle_count s + int C"
      and n: "db_calls s' = db_calls s @ new" "length new = C"
        "total_wait_time_saved s' =
           total_wait_time_saved s + (\<Sum>c\<leftarrow>new. max 0 (60 - green_duration c))"
    by blast
  have cc: "cycle_count s' = int C" using c assms(2) by simp
  have len: "length (db_calls s') = C" using n assms(4) by simp
  have tot: "total_wait_time_saved s' = (\<Sum>c\<leftarrow>db_calls s'. max 0 (60 - green_duration c))"
    using n assms(3,4) by simp
  from normal_cycles_saved_bounds [OF assms(1)]
  have b: "0 \<le> total_wait_time_saved s'" "total_wait_time_saved s' \<le> 45 * int C"
    using assms(3) by simp_all
  show ?thesis
  proof (cases "C = 0")
    case True
    then show ?thesis using cc len tot by (simp add: get_statistics_def)
  next
    case False
    then have pos: "0 < cycle_count s'" using cc by simp
    from py_truediv_small [OF b(1) pos] b(2) cc obtain r
      where r: "py_truediv (total_wait_time_saved s') (cycle_count s') = Inr r"
        and e: "\<bar>r - of_int (total_wait_time_saved s') / of_int (cycle_count s')\<bar> \<le> 1 / 2 ^ 48"
      by auto
    let ?st = "\<lparr>total_cycles = cycle_count s', emergency_events = emergency_count s',
                wait_time_saved = total_wait_time_saved s', stat_current_lane = current_lane s',
                stat_mode = mode s', avg_wait_saved_per_cycle = r\<rparr>"
    have g: "get_statistics s' = Inr ?st"
      using pos r by (simp add: get_statistics_def)
    show ?thesis
      using False g r e cc len tot by (intro exI [of _ ?st]) simp
  qed
qed

theorem statistics_after_normal_cycles_witness:
  "cycle_count (run_init init) = 0 \<and> total_wait_time_saved (run_init init) = 0
   \<and> db_calls (run_init init) = []
   \<and> (\<exists>s' st. normal_cycles steady_world 7 (run_init init) = Return () s'
         \<and> map green_duration (db_calls s') = [60, 30, 15, 15, 60, 30, 15]
         \<and> get_statistics s' = Inr st
         \<and> total_cycles st = 7
         \<and> wait_time_saved st = 195
         \<and> avg_wait_saved_per_cycle st = 7841088636939703 / 281474976710656)
   \<and> (\<exists>st. get_statistics (run_init init) = Inr st \<and> total_cycles st = 0
         \<and> avg_wait_saved_per_cycle st = 0)"
proof -
  let ?s = "run_init init"
  have z: "cycle_count ?s = 0" "total_wait_time_saved ?s = 0" "db_calls ?s = []"
    by (simp_all add: run_init_def init_def set_lane_def)
  have seven: "(7::nat) = Suc (Suc (Suc (Suc (Suc (Suc (Suc 0))))))" by simp
  obtain s' where r: "normal_cycles steady_world 7 ?s = Return () s'"
    using normal_cycles_return [of steady_world steady_feed 7 ?s]
    by (auto simp: steady_world_def)
  have "map green_duration (db_calls (state_of (normal_cycles steady_world 7 ?s)))
      = [60, 30, 15, 15, 60, 30, 15]"
    unfolding seven
    by (simp add: handle_normal_cycle_def Let_def sleep_fields transition_to_lane_fields
        log_traffic_cycle_def steady_world_def multi_lane_def get_lane_data_def
        make_processors_def steady_feed_def lane_with_def get_data_def sum_values_def
        calculate_green_duration_def run_init_def init_def set_lane_fields)
  then have g: "map green_duration (db_calls s') = [60, 30, 15, 15, 60, 30, 15]"
    using r by simp
  have sm: "(\<Sum>c\<leftarrow>db_calls s'. max 0 (60 - green_duration c)) = 195"
  proof -
    have "(\<Sum>c\<leftarrow>db_calls s'. max 0 (60 - green_duration c))
        = (\<Sum>d\<leftarrow>map green_duration (db_calls s'). max 0 (60 - d))"
      by (simp add: comp_def)
    then show ?thesis by (simp add: g)
  qed
  have dv: "py_truediv 195 7 = Inr (7841088636939703 / 281474976710656)"
  proof -
    have bn: "binade 195 7 = 4" by code_simp
    have m: "round_half_even (195 / (7 * pow2 (- 48))) = 7841088636939703" by code_simp
    have v: "7841088636939703 * pow2 (- 48) = (7841088636939703 / 281474976710656 :: rat)"
      by (simp add: pow2_def)
    have "(7841088636939703 / 281474976710656 :: rat) < pow2 5" by (simp add: pow2_def)
    also have "pow2 5 \<le> pow2 1024" by (rule pow2_mono) simp
    finally have "(7841088636939703 / 281474976710656 :: rat) < pow2 1024" .
    then have nov: "\<not> pow2 1024 * 281474976710656 \<le> (7841088636939703 :: rat)"
      by (simp add: pos_divide_less_eq)
    show ?thesis
      by (simp add: py_truediv_def Let_def bn m v nov)
  qed
  from statistics_after_normal_cycles [OF r z] obtain st
    where st: "get_statistics s' = Inr st" "total_cycles st = 7" "wait_time_saved st = 195"
      and av: "Inr (avg_wait_saved_per_cycle st) = py_truediv (wait_time_saved st) (total_cycles st)"
    by (auto simp: sm)
  have av': "avg_wait_saved_per_cycle st = 7841088636939703 / 281474976710656"
    using av st(2,3) dv by simp
  have ex7: "\<exists>s' st. normal_cycles steady_world 7 (run_init init) = Return () s'
         \<and> map green_duration (db_calls s') = [60, 30, 15, 15, 60, 30, 15]
         \<and> get_statistics s' = Inr st
         \<and> total_cycles st = 7
         \<and> wait_time_saved st = 195
         \<and> avg_wait_saved_per_cycle st = 7841088636939703 / 281474976710656"
    using r g st av' by (intro exI [of _ s'] exI [of _ st]) simp
  have "normal_cycles steady_world 0 ?s = Return () ?s" by simp
  from statistics_after_normal_cycles [OF this z]
  have ex0: "\<exists>st. get_statistics ?s = Inr st \<and> total_cycles st = 0
         \<and> avg_wait_saved_per_cycle st = 0"
    by auto
  show ?thesis
    by (intro conjI) (rule z ex7 ex0)+
qed

section \<open>Failure semantics of the loop\<close>

text \<open>
  C9. A lane without a processor yields empty counts and no ambulance, and a processor
  that has not detected anything yet holds zero counts: the normal cycle of such a lane
  completes with the shortest green, 15 seconds. When anything inside a cycle raises,
  the loop sleeps 5 seconds and goes on with the next pass from the state the cycle had
  reached. The loop is left only after a stop request: when no other thread ever calls
  \<^verbatim>\<open>stop\<close>, the loop started by \<^verbatim>\<open>run\<close> is still going after any number of passes.
\<close>

theorem scheduler_failure_semantics:
  "(detection w = multi_lane feed
      \<and> \<not> (1 \<le> current_lane s
            \<and> current_lane s \<le> int (length (make_processors (feed (clock s))))) \<longrightarrow>
      (\<exists>s'. handle_normal_cycle w s = Return () s'
         \<and> db_calls s' = db_calls s @
              [\<lparr>lane_id = current_lane s, vehicle_counts = [], ambulance_detected = False,
                green_duration = 15, signal_mode = mode s\<rparr>]
         \<and> clock s' = clock s + 15 + yellow_duration s + transition_delay s))
   \<and> calculate_green_duration (sum_values (fst (get_data new_processor))) = 15
   \<and> \<not> snd (get_data new_processor)
   \<and> (cycle w s = Raised x s1 \<longrightarrow>
        iteration w s = sleep w 5 s1
        \<and> clock (iteration w s) = clock s1 + 5
        \<and> (running s \<longrightarrow> passes w (Suc n) s = passes w n (sleep w 5 s1)))
   \<and> ((\<forall>t. Stop \<notin> set (calls w t)) \<longrightarrow> run w n s = None)"
proof -
  have a: "\<exists>s'. handle_normal_cycle w s = Return () s'
         \<and> db_calls s' = db_calls s @
              [\<lparr>lane_id = current_lane s, vehicle_counts = [], ambulance_detected = False,
                green_duration = 15, signal_mode = mode s\<rparr>]
         \<and> clock s' = clock s + 15 + yellow_duration s + transition_delay s"
    if d: "detection w = multi_lane feed"
      and o: "\<not> (1 \<le> current_lane s
            \<and> current_lane s \<le> int (length (make_processors (feed (clock s)))))"
  proof -
    have ld: "lane_data_at (detection w) (clock s) (current_lane s) = Inr ([], False)"
      using d o by (auto simp: multi_lane_def get_lane_data_def)
    from normal_cycle_effect [OF ld] show ?thesis
      by (auto simp: sum_values_def calculate_green_duration_def)
  qed
  have b: "calculate_green_duration (sum_values (fst (get_data new_processor))) = 15"
    "\<not> snd (get_data new_processor)"
    by (simp_all add: get_data_def new_processor_def sum_values_def calculate_green_duration_def)
  have c: "iteration w s = sleep w 5 s1 \<and> clock (iteration w s) = clock s1 + 5
        \<and> (running s \<longrightarrow> passes w (Suc n) s = passes w n (sleep w 5 s1))"
    if "cycle w s = Raised x s1"
    using that by (simp add: iteration_def sleep_fields)
  have e: "run w n s = None" if q: "\<forall>t. Stop \<notin> set (calls w t)"
  proof -
    have "running (run_init s)" by (simp add: run_init_def set_lane_def)
    then show ?thesis unfolding run_def by (rule run_loop_never_exits [OF q])
  qed
  from a b c e show ?thesis by blast
qed

theorem scheduler_failure_semantics_witness:
  "detection two_lane_world = multi_lane two_lane_feed
   \<and> \<not> (1 \<le> current_lane (init\<lparr>current_lane := 3\<rparr>)
         \<and> current_lane (init\<lparr>current_lane := 3\<rparr>)
             \<le> int (length (make_processors (two_lane_feed (clock (init\<lparr>current_lane := 3\<rparr>))))))
   \<and> (\<exists>s'. handle_normal_cycle two_lane_world (init\<lparr>current_lane := 3\<rparr>) = Return () s'
         \<and> db_calls s' =
              [\<lparr>lane_id = 3, vehicle_counts = [], ambulance_detected = False,
                green_duration = 15, signal_mode = NORMAL\<rparr>]
         \<and> clock s' = 20)
   \<and> cycle faulty_world (run_init init) = Raised Exception (run_init init)
   \<and> running (run_init init)
   \<and> iteration faulty_world (run_init init) = sleep faulty_world 5 (run_init init)
   \<and> clock (iteration faulty_world (run_init init)) = 5
   \<and> running (iteration faulty_world (run_init init))
   \<and> passes faulty_world 3 (run_init init)
        = passes faulty_world 2 (sleep faulty_world 5 (run_init init))
   \<and> (\<forall>t. Stop \<notin> set (calls faulty_world t))
   \<and> run faulty_world 7 init = None"
proof -
  let ?s3 = "init\<lparr>current_lane := 3\<rparr>"
  let ?s = "run_init init"
  have d: "detection two_lane_world = multi_lane two_lane_feed"
    by (simp add: two_lane_world_def)
  have o: "\<not> (1 \<le> current_lane ?s3
         \<and> current_lane ?s3 \<le> int (length (make_processors (two_lane_feed (clock ?s3)))))"
    by (simp add: make_processors_def two_lane_feed_def)
  from scheduler_failure_semantics [of two_lane_world two_lane_feed ?s3] d o
  obtain s' where "handle_normal_cycle two_lane_world ?s3 = Return () s'"
    "db_calls s' = db_calls ?s3 @
              [\<lparr>lane_id = current_lane ?s3, vehicle_counts = [], ambulance_detected = False,
                green_duration = 15, signal_mode = mode ?s3\<rparr>]"
    "clock s' = clock ?s3 + 15 + yellow_duration ?s3 + transition_delay ?s3"
    by blast
  then have a: "\<exists>s'. handle_normal_cycle two_lane_world ?s3 = Return () s'
         \<and> db_calls s' =
              [\<lparr>lane_id = 3, vehicle_counts = [], ambulance_detected = False,
                green_duration = 15, signal_mode = NORMAL\<rparr>]
         \<and> clock s' = 20"
    by (intro exI [of _ s']) (simp add: init_def)
  have cy: "cycle faulty_world ?s = Raised Exception ?s"
    by (simp add: cycle_def check_emergency_conditions_def faulty_world_def run_init_def
          init_def set_lane_def)
  have ru: "running ?s" by (simp add: run_init_def set_lane_def)
  have q: "\<forall>t. Stop \<notin> set (calls faulty_world t)" by (simp add: faulty_world_def)
  note inst = scheduler_failure_semantics [of faulty_world two_lane_feed ?s Exception ?s 2]
  have it: "iteration faulty_world ?s = sleep faulty_world 5 ?s"
    and ck: "clock (iteration faulty_world ?s) = clock ?s + 5"
    and pa: "passes faulty_world (Suc 2) ?s = passes faulty_world 2 (sleep faulty_world 5 ?s)"
    using inst cy ru by blast+
  have ck': "clock (iteration faulty_world ?s) = 5"
    using ck by (simp add: run_init_def init_def set_lane_def)
  have ri: "running (iteration faulty_world ?s)"
    using running_iteration [OF q, of ?s] ru by simp
  have pa': "passes faulty_world 3 ?s = passes faulty_world 2 (sleep faulty_world 5 ?s)"
    using pa by (simp add: numeral_3_eq_3)
  have nv: "run faulty_world 7 init = None"
    using scheduler_failure_semantics [of faulty_world two_lane_feed init Exception init 7] q
    by blast
  show ?thesis
    by (intro conjI) (rule d o a cy ru it ck' ri pa' q nv)+
qed

section \<open>One signal at a time\<close>

text \<open>
  C3. Start a freshly constructed controller with \<^verbatim>\<open>run\<close>. Whatever the detection system
  reports, whatever it raises and whatever other threads call, every value the signal
  table takes (the initial table, and the table after each write of a normal cycle, a
  transition or an emergency override) has at most one lane that is not RED, and so has
  the table a reader gets from \<^verbatim>\<open>get_all_states\<close> after any number of passes.
\<close>

theorem at_most_one_lane_not_red:
  "list_all at_most_one_non_red (map snd (signal_log (passes w n (run_init init))))
   \<and> at_most_one_non_red (get_all_states (passes w n (run_init init)))
   \<and> at_most_one_non_red (get_all_states init)"
proof -
  have "at_most_one_non_red (get_all_states init)"
    by (simp add: get_all_states_def init_def at_most_one_non_red_def non_red_lanes_def)
  then show ?thesis using signals_exclusive [of w n] by simp
qed

section \<open>The green wait\<close>

text \<open>
  C1, as the code has it. A pass of the loop that finds no pending override and no
  ambulance when it starts, and can read the data of the active lane \<open>L\<close>, runs the whole
  normal cycle: the signal table is not written for the full green duration computed at
  the start, then \<open>L\<close> goes YELLOW, RED, and lane \<open>L mod 4 + 1\<close> GREEN. The outcome depends
  on the world only through what was read at the start of the pass: nothing that other
  lanes report and no override fired during the wait changes the time or the target of
  the transition. The pass handles no emergency: the emergency counter moves only when
  the active lane itself showed an ambulance at the start, and the mode is NORMAL at the
  end.
\<close>

theorem green_wait_runs_full_duration:
  "\<not> truthy (force_emergency_lane s)
   \<and> all_lane_data_at (detection w) (clock s) = Inr data \<and> first_ambulance data = None
   \<and> lane_data_at (detection w) (clock s) (current_lane s) = Inr (cs, amb) \<longrightarrow>
     signal_log (iteration w s) = signal_log s @
        [(clock s + nat (calculate_green_duration (sum_values cs)),
          dict_set (lane_states s) (current_lane s) YELLOW),
         (clock s + nat (calculate_green_duration (sum_values cs)) + yellow_duration s,
          dict_set (dict_set (lane_states s) (current_lane s) YELLOW) (current_lane s) RED),
         (clock s + nat (calculate_green_duration (sum_values cs)) + yellow_duration s
            + transition_delay s,
          lane_states (iteration w s))]
     \<and> get_lane_state (current_lane s mod 4 + 1) (iteration w s) = GREEN
     \<and> current_lane (iteration w s) = current_lane s mod 4 + 1
     \<and> clock (iteration w s) =
          clock s + nat (calculate_green_duration (sum_values cs)) + yellow_duration s
            + transition_delay s
     \<and> cycle_count (iteration w s) = cycle_count s + 1
     \<and> emergency_count (iteration w s) = emergency_count s + (if amb then 1 else 0)
     \<and> mode (iteration w s) = NORMAL"
proof
  assume a: "\<not> truthy (force_emergency_lane s)
   \<and> all_lane_data_at (detection w) (clock s) = Inr data \<and> first_ambulance data = None
   \<and> lane_data_at (detection w) (clock s) (current_lane s) = Inr (cs, amb)"
  let ?s = "s\<lparr>mode := NORMAL\<rparr>"
  have ld: "lane_data_at (detection w) (clock ?s) (current_lane ?s) = Inr (cs, amb)"
    using a by simp
  from normal_cycle_effect [OF ld] obtain s' where r: "handle_normal_cycle w ?s = Return () s'"
    and ls: "lane_states s' =
       dict_set (dict_set (dict_set (lane_states s) (current_lane s) YELLOW) (current_lane s) RED)
         (current_lane s mod 4 + 1) GREEN"
    and lg: "signal_log s' = signal_log s @
         [(clock s + nat (calculate_green_duration (sum_values cs)),
           dict_set (lane_states s) (current_lane s) YELLOW),
          (clock s + nat (calculate_green_duration (sum_values cs)) + yellow_duration s,
           dict_set (dict_set (lane_states s) (current_lane s) YELLOW) (current_lane s) RED),
          (clock s + nat (calculate_green_duration (sum_values cs)) + yellow_duration s
             + transition_delay s,
           dict_set (dict_set (dict_set (lane_states s) (current_lane s) YELLOW)
             (current_lane s) RED) (current_lane s mod 4 + 1) GREEN)]"
    and rest: "current_lane s' = current_lane s mod 4 + 1" "cycle_count s' = cycle_count s + 1"
      "clock s' = clock s + nat (calculate_green_duration (sum_values cs)) + yellow_duration s
         + transition_delay s"
      "emergency_count s' = emergency_count s + (if amb then 1 else 0)" "mode s' = NORMAL"
    by auto
  have it: "iteration w s = s'"
    using a r by (intro normal_pass [of s w data]) simp_all
  have g: "get_lane_state (current_lane s mod 4 + 1) s' = GREEN"
    by (simp add: get_lane_state_def ls map_of_dict_set)
  show "signal_log (iteration w s) = signal_log s @
        [(clock s + nat (calculate_green_duration (sum_values cs)),
          dict_set (lane_states s) (current_lane s) YELLOW),
         (clock s + nat (calculate_green_duration (sum_values cs)) + yellow_duration s,
          dict_set (dict_set (lane_states s) (current_lane s) YELLOW) (current_lane s) RED),
         (clock s + nat (calculate_green_duration (sum_values cs)) + yellow_duration s
            + transition_delay s,
          lane_states (iteration w s))]
     \<and> get_lane_state (current_lane s mod 4 + 1) (iteration w s) = GREEN
     \<and> current_lane (iteration w s) = current_lane s mod 4 + 1
     \<and> clock (iteration w s) =
          clock s + nat (calculate_green_duration (sum_values cs)) + yellow_duration s
            + transition_delay s
     \<and> cycle_count (iteration w s) = cycle_count s + 1
     \<and> emergency_count (iteration w s) = emergency_count s + (if amb then 1 else 0)
     \<and> mode (iteration w s) = NORMAL"
    unfolding it using lg ls g rest by simp
qed

theorem green_wait_runs_full_duration_witness:
  "\<not> truthy (force_emergency_lane (run_init init))
   \<and> all_lane_data_at (detection late_world) (clock (run_init init))
        = Inr (get_all_lane_data (late_feed 0))
   \<and> first_ambulance (get_all_lane_data (late_feed 0)) = None
   \<and> lane_data_at (detection late_world) (clock (run_init init)) (current_lane (run_init init))
        = Inr ([(''car'', 20), (''bus'', 0), (''truck'', 0), (''motorcycle'', 0)], False)
   \<and> snd (get_lane_data (make_processors (late_feed 1)) 3)
   \<and> calls late_world 2 = [ForceEmergency 4]
   \<and> signal_log (iteration late_world (run_init init)) =
        [(0, [(1, RED), (2, RED), (3, RED), (4, RED)]),
         (0, [(1, GREEN), (2, RED), (3, RED), (4, RED)]),
         (60, [(1, YELLOW), (2, RED), (3, RED), (4, RED)]),
         (63, [(1, RED), (2, RED), (3, RED), (4, RED)]),
         (65, lane_states (iteration late_world (run_init init)))]
   \<and> get_lane_state 2 (iteration late_world (run_init init)) = GREEN
   \<and> current_lane (iteration late_world (run_init init)) = 2
   \<and> clock (iteration late_world (run_init init)) = 65
   \<and> emergency_count (iteration late_world (run_init init)) = 0
   \<and> mode (iteration late_world (run_init init)) = NORMAL"
proof -
  let ?s = "run_init init"
  let ?w = late_world
  let ?cs = "[(''car'', 20), (''bus'', 0), (''truck'', 0), (''motorcycle'', 0)] :: counts"
  have f: "current_lane ?s = 1" "clock ?s = 0" "yellow_duration ?s = 3" "transition_delay ?s = 2"
    "lane_states ?s = [(1, GREEN), (2, RED), (3, RED), (4, RED)]"
    "signal_log ?s = [(0, [(1, RED), (2, RED), (3, RED), (4, RED)]),
                      (0, [(1, GREEN), (2, RED), (3, RED), (4, RED)])]"
    "emergency_count ?s = 0"
    by (simp_all add: run_init_def init_def set_lane_def)
  have h1: "\<not> truthy (force_emergency_lane ?s)"
    by (simp add: run_init_def init_def set_lane_def)
  have h2: "all_lane_data_at (detection ?w) (clock ?s) = Inr (get_all_lane_data (late_feed 0))"
    by (simp add: f late_world_def multi_lane_def make_processors_def late_feed_def)
  have h3: "first_ambulance (get_all_lane_data (late_feed 0)) = None"
    by (simp add: first_ambulance_none late_feed_def lane_with_def)
  have h4: "lane_data_at (detection ?w) (clock ?s) (current_lane ?s) = Inr (?cs, False)"
    by (simp add: f late_world_def multi_lane_def get_lane_data_def make_processors_def
          late_feed_def lane_with_def get_data_def)
  have amb: "snd (get_lane_data (make_processors (late_feed 1)) 3)"
    by (simp add: get_lane_data_def make_processors_def late_feed_def lane_with_def get_data_def)
  have call: "calls ?w 2 = [ForceEmergency 4]" by (simp add: late_world_def)
  from green_wait_runs_full_duration
         [of ?s ?w "get_all_lane_data (late_feed 0)" ?cs False] h1 h2 h3 h4
  have c: "signal_log (iteration ?w ?s) = signal_log ?s @
        [(clock ?s + nat (calculate_green_duration (sum_values ?cs)),
          dict_set (lane_states ?s) (current_lane ?s) YELLOW),
         (clock ?s + nat (calculate_green_duration (sum_values ?cs)) + yellow_duration ?s,
          dict_set (dict_set (lane_states ?s) (current_lane ?s) YELLOW) (current_lane ?s) RED),
         (clock ?s + nat (calculate_green_duration (sum_values ?cs)) + yellow_duration ?s
            + transition_delay ?s,
          lane_states (iteration ?w ?s))]"
    "get_lane_state (current_lane ?s mod 4 + 1) (iteration ?w ?s) = GREEN"
    "current_lane (iteration ?w ?s) = current_lane ?s mod 4 + 1"
    "clock (iteration ?w ?s) =
          clock ?s + nat (calculate_green_duration (sum_values ?cs)) + yellow_duration ?s
            + transition_delay ?s"
    "emergency_count (iteration ?w ?s) = emergency_count ?s + (if False then 1 else 0)"
    "mode (iteration ?w ?s) = NORMAL"
    by blast+
  have c': "signal_log (iteration ?w ?s) =
        [(0, [(1, RED), (2, RED), (3, RED), (4, RED)]),
         (0, [(1, GREEN), (2, RED), (3, RED), (4, RED)]),
         (60, [(1, YELLOW), (2, RED), (3, RED), (4, RED)]),
         (63, [(1, RED), (2, RED), (3, RED), (4, RED)]),
         (65, lane_states (iteration ?w ?s))]"
    "get_lane_state 2 (iteration ?w ?s) = GREEN"
    "current_lane (iteration ?w ?s) = 2"
    "clock (iteration ?w ?s) = 65"
    "emergency_count (iteration ?w ?s) = 0"
    using c by (simp_all add: f sum_values_def calculate_green_duration_def)
  show ?thesis
    by (intro conjI) (rule h1 h2 h3 h4 amb call c' c(6))+
qed

text \<open>
  C1, as the specification states it, fails. Lane 1 is active and busy: its green lasts
  60 seconds. One second into the wait lane 3 reports an ambulance, and in second 2 the
  emergency button of lane 4 is pressed. Lane 1 nevertheless stays GREEN until second 60,
  the normal transition to lane 2 follows, and the emergency counter is still 0 when the
  pass ends at second 65 with the override still pending. Only the next pass serves the
  emergency: lane 4 turns GREEN at second 70.
\<close>

theorem green_wait_preempted_counterexample:
  "current_lane (run_init init) = 1
   \<and> calculate_green_duration 20 = 60
   \<and> snd (get_lane_data (make_processors (late_feed 1)) 3)
   \<and> calls late_world 2 = [ForceEmergency 4]
   \<and> signal_log (passes late_world 1 (run_init init)) =
        [(0, [(1, RED), (2, RED), (3, RED), (4, RED)]),
         (0, [(1, GREEN), (2, RED), (3, RED), (4, RED)]),
         (60, [(1, YELLOW), (2, RED), (3, RED), (4, RED)]),
         (63, [(1, RED), (2, RED), (3, RED), (4, RED)]),
         (65, [(1, RED), (2, GREEN), (3, RED), (4, RED)])]
   \<and> clock (passes late_world 1 (run_init init)) = 65
   \<and> emergency_count (passes late_world 1 (run_init init)) = 0
   \<and> force_emergency_lane (passes late_world 1 (run_init init)) = Some 4
   \<and> signal_log (passes late_world 2 (run_init init)) =
        [(0, [(1, RED), (2, RED), (3, RED), (4, RED)]),
         (0, [(1, GREEN), (2, RED), (3, RED), (4, RED)]),
         (60, [(1, YELLOW), (2, RED), (3, RED), (4, RED)]),
         (63, [(1, RED), (2, RED), (3, RED), (4, RED)]),
         (65, [(1, RED), (2, GREEN), (3, RED), (4, RED)]),
         (65, [(1, RED), (2, YELLOW), (3, RED), (4, RED)]),
         (68, [(1, RED), (2, RED), (3, RED), (4, RED)]),
         (70, [(1, RED), (2, RED), (3, RED), (4, GREEN)])]
   \<and> emergency_count (passes late_world 2 (run_init init)) = 1"
proof -
  let ?w = late_world
  let ?s = "run_init init"
  let ?n = "?s\<lparr>mode := NORMAL\<rparr>"
  let ?cs = "[(''car'', 20), (''bus'', 0), (''truck'', 0), (''motorcycle'', 0)] :: counts"
  let ?c0 = "[(''car'', 0), (''bus'', 0), (''truck'', 0), (''motorcycle'', 0)] :: counts"
  have f: "current_lane ?s = 1" "clock ?s = 0" "yellow_duration ?s = 3" "transition_delay ?s = 2"
    "lane_states ?s = [(1, GREEN), (2, RED), (3, RED), (4, RED)]"
    "signal_log ?s = [(0, [(1, RED), (2, RED), (3, RED), (4, RED)]),
                      (0, [(1, GREEN), (2, RED), (3, RED), (4, RED)])]"
    "running ?s" "force_emergency_lane ?s = None" "emergency_count ?s = 0" "cycle_count ?s = 0"
    "db_calls ?s = []" "total_wait_time_saved ?s = 0"
    by (simp_all add: run_init_def init_def set_lane_def)
  have g: "calculate_green_duration 20 = 60" by (simp add: calculate_green_duration_def)
  have amb: "snd (get_lane_data (make_processors (late_feed 1)) 3)"
    by (simp add: get_lane_data_def make_processors_def late_feed_def lane_with_def get_data_def)
  have call: "calls ?w 2 = [ForceEmergency 4]" by (simp add: late_world_def)
  have nostop: "\<forall>t. Stop \<notin> set (calls ?w t)" by (simp add: late_world_def)
  have later: "\<forall>t > 2. \<forall>l. ForceEmergency l \<notin> set (calls ?w t)"
    by (simp add: late_world_def)
  \<comment> \<open>the first pass\<close>
  have h2: "all_lane_data_at (detection ?w) (clock ?s) = Inr (get_all_lane_data (late_feed 0))"
    by (simp add: f late_world_def multi_lane_def make_processors_def late_feed_def)
  have h3: "first_ambulance (get_all_lane_data (late_feed 0)) = None"
    by (simp add: first_ambulance_none late_feed_def lane_with_def)
  have ld: "lane_data_at (detection ?w) (clock ?n) (current_lane ?n) = Inr (?cs, False)"
    by (simp add: f late_world_def multi_lane_def get_lane_data_def make_processors_def
          late_feed_def lane_with_def get_data_def)
  from normal_cycle_effect [OF ld] obtain s1 where r1: "handle_normal_cycle ?w ?n = Return () s1"
    and s1: "lane_states s1 = [(1, RED), (2, GREEN), (3, RED), (4, RED)]"
      "signal_log s1 =
        [(0, [(1, RED), (2, RED), (3, RED), (4, RED)]),
         (0, [(1, GREEN), (2, RED), (3, RED), (4, RED)]),
         (60, [(1, YELLOW), (2, RED), (3, RED), (4, RED)]),
         (63, [(1, RED), (2, RED), (3, RED), (4, RED)]),
         (65, [(1, RED), (2, GREEN), (3, RED), (4, RED)])]"
      "clock s1 = 65" "current_lane s1 = 2" "emergency_count s1 = 0" "cycle_count s1 = 1"
      "yellow_duration s1 = 3" "transition_delay s1 = 2"
    by (auto simp: f sum_values_def calculate_green_duration_def)
  have it1: "iteration ?w ?s = s1"
    using h2 h3 r1 by (intro normal_pass [of ?s ?w "get_all_lane_data (late_feed 0)"])
      (simp_all add: f)
  have p1: "passes ?w 1 ?s = s1"
    using it1 f(7) by simp
  \<comment> \<open>the override pressed in second 2 is still pending at the end of the first pass\<close>
  define s3 where "s3 = log_traffic_cycle
       \<lparr>lane_id = 1, vehicle_counts = ?cs, ambulance_detected = False, green_duration = 60,
        signal_mode = NORMAL\<rparr> ?n"
  have s1_eq: "s1 = (transition_to_lane ?w 1 2 (sleep ?w 60 s3))
       \<lparr>mode := NORMAL, cycle_count := cycle_count (transition_to_lane ?w 1 2 (sleep ?w 60 s3)) + 1\<rparr>"
    using r1 ld
    by (simp add: handle_normal_cycle_def Let_def f s3_def sum_values_def
          calculate_green_duration_def)
  have c3: "clock s3 = 0" "force_emergency_lane s3 = None"
    by (simp_all add: s3_def log_traffic_cycle_def f)
  have two: "force_emergency_lane (sleep ?w 2 s3) = Some 4 \<and> clock (sleep ?w 2 s3) = 2"
    by (simp add: numeral_2_eq_2 c3 late_world_def force_emergency_def sleep_fields)
  have split: "sleep ?w 60 s3 = sleep ?w 58 (sleep ?w 2 s3)"
    using sleep_add [of ?w 2 58 s3] by simp
  have "force_emergency_lane (sleep ?w 60 s3) = Some 4"
    unfolding split using slot_sleep_after [of "sleep ?w 2 s3" ?w 58] later two by simp
  moreover have "\<forall>t > clock (sleep ?w 60 s3). \<forall>l. ForceEmergency l \<notin> set (calls ?w t)"
    using later by (simp add: sleep_fields c3)
  ultimately have slot1: "force_emergency_lane s1 = Some 4"
    by (simp add: s1_eq slot_transition_after)
  have run1: "running s1"
    using running_iteration [OF nostop, of ?s] it1 f(7) by simp
  \<comment> \<open>the second pass\<close>
  let ?e = "s1\<lparr>force_emergency_lane := None, mode := EMERGENCY\<rparr>"
  have chk: "check_emergency_conditions ?w s1 = Return (Some 4) (s1\<lparr>force_emergency_lane := None\<rparr>)"
    by (simp add: check_emergency_conditions_def slot1)
  have ne: "current_lane ?e \<noteq> 4" by (simp add: s1)
  have ld2: "lane_data_at (detection ?w) (clock ?e + yellow_duration ?e + transition_delay ?e) 4
       = Inr (?c0, False)"
    by (simp add: s1 late_world_def multi_lane_def get_lane_data_def make_processors_def
          late_feed_def lane_with_def get_data_def)
  from emergency_override_effect [OF ne ld2] obtain s2
    where r2: "handle_emergency_override ?w 4 ?e = Return () s2"
      and s2: "signal_log s2 =
        [(0, [(1, RED), (2, RED), (3, RED), (4, RED)]),
         (0, [(1, GREEN), (2, RED), (3, RED), (4, RED)]),
         (60, [(1, YELLOW), (2, RED), (3, RED), (4, RED)]),
         (63, [(1, RED), (2, RED), (3, RED), (4, RED)]),
         (65, [(1, RED), (2, GREEN), (3, RED), (4, RED)]),
         (65, [(1, RED), (2, YELLOW), (3, RED), (4, RED)]),
         (68, [(1, RED), (2, RED), (3, RED), (4, RED)]),
         (70, [(1, RED), (2, RED), (3, RED), (4, GREEN)])]"
        "emergency_count s2 = 1"
    by (auto simp: s1)
  have it2: "iteration ?w s1 = s2"
    by (simp add: iteration_def cycle_def chk r2)
  have p2: "passes ?w 2 ?s = s2"
    using f(7) run1 by (simp add: numeral_2_eq_2 it1 it2)
  show ?thesis
    unfolding p1 p2
    by (intro conjI) (rule f(1) g amb call s1 slot1 s2)+
qed

end
